theory Spec2Isabelle
  imports Complex_Main
begin

section \<open>Numbers and layout constants\<close>

text \<open>
  A TypeScript \<open>number\<close> that holds a time, a position or a point value is modelled as a
  \<^typ>\<open>real\<close>; NaN and the infinities are outside the model. Comparisons, \<open>Math.abs\<close> and
  \<open>Math.floor\<close> are exact. The arithmetic of the notes, the judgment windows and the clock is
  exact as well. The arithmetic of the game loop and of the score is rounded to binary64 with
  \<open>fl\<close> below, as the code's is: there the rounding decides how many updates a frame makes
  and what \<open>Math.floor\<close> returns. Counters that the code only increments from zero or resets
  to zero (combo, hit counts) are \<^typ>\<open>nat\<close>; lanes are \<^typ>\<open>int\<close>. The host's
  \<open>performance.now()\<close> is an argument of every operation that reads it.
\<close>

subsection \<open>Rounding to binary64\<close>

text \<open>
  \<open>rne\<close> rounds to the nearest integer, ties to the even one. \<open>expo x\<close> is the exponent of
  the binade of \<open>x\<close>, that is the \<open>e\<close> with \<open>2^e \<le> |x| < 2^(e+1)\<close>, and \<open>-1022\<close> for
  the subnormal numbers and zero. \<open>fl x\<close> is the multiple of \<open>2^(e-52)\<close> nearest to
  \<open>x\<close>, ties to even: the binary64 number that IEEE 754 arithmetic returns for an exact
  result \<open>x\<close> (overflow apart).
\<close>

definition rne :: "real \<Rightarrow> int" where
  "rne x =
     (let f = \<lfloor>x\<rfloor>; r = x - of_int f
      in if r < 1 / 2 then f
         else if 1 / 2 < r then f + 1
         else if even f then f else f + 1)"

function expo_hi :: "real \<Rightarrow> int" where
  "expo_hi x = (if 2 \<le> x then expo_hi (x / 2) + 1 else 0)"
  by pat_completeness auto
termination
proof (relation "measure (\<lambda>x. nat \<lfloor>x\<rfloor>)")
  show "wf (measure (\<lambda>x::real. nat \<lfloor>x\<rfloor>))" by simp
next
  fix x :: real
  assume "2 \<le> x"
  then have "x / 2 \<le> x - 1" by simp
  then have "\<lfloor>x / 2\<rfloor> \<le> \<lfloor>x - 1\<rfloor>" by (rule floor_mono)
  moreover have "2 \<le> \<lfloor>x\<rfloor>" using \<open>2 \<le> x\<close> by (simp add: le_floor_iff)
  ultimately show "(x / 2, x) \<in> measure (\<lambda>x. nat \<lfloor>x\<rfloor>)" by simp
qed

fun expo_lo :: "nat \<Rightarrow> real \<Rightarrow> int" where
  "expo_lo 0 x = 0"
| "expo_lo (Suc n) x = (if x < 1 then expo_lo n (2 * x) - 1 else 0)"

definition expo :: "real \<Rightarrow> int" where
  "expo x = (if 1 \<le> \<bar>x\<bar> then expo_hi \<bar>x\<bar> else expo_lo 1022 \<bar>x\<bar>)"

definition fl :: "real \<Rightarrow> real" where
  "fl x = of_int (rne (x / 2 powi (expo x - 52))) * 2 powi (expo x - 52)"

subsection \<open>Layout\<close>

definition JUDGMENT_LINE_Y :: real where
  "JUDGMENT_LINE_Y = 520"

definition NOTE_FALL_SPEED :: real where
  "NOTE_FALL_SPEED = 1 / 2"

definition NOTE_SPAWN_OFFSET :: real where
  "NOTE_SPAWN_OFFSET = 2000"

definition FIXED_TIMESTEP :: real where
  "FIXED_TIMESTEP = fl (1000 / 60)"

section \<open>Chart types\<close>

datatype NoteType = Tap | Hold

record NoteData =
  nd_time :: real
  nd_lane :: int
  nd_type :: NoteType
  nd_duration :: "real option"

datatype Judgment = PERFECT | GREAT | GOOD | BAD | MISS

record JudgmentResult =
  jr_judgment :: Judgment
  timeDiff :: real
  score :: real

section \<open>Note\<close>

text \<open>
  The fields of class \<open>Note\<close>; the private \<open>_y\<close>, \<open>_endY\<close>, \<open>_isActive\<close>, ... are read
  through getters of the same name without the underscore. The two sprite handles belong to
  the renderer and are not part of the model.
\<close>

record Note =
  time :: real
  lane :: int
  ntype :: NoteType
  duration :: real
  endTime :: real
  note_y :: real
  note_endY :: real
  isActive :: bool
  isHit :: bool
  isMissed :: bool
  isHolding :: bool
  holdCompleted :: bool

definition Note_new :: "NoteData \<Rightarrow> Note" where
  "Note_new d =
     (let dur = (case nd_duration d of None \<Rightarrow> 0 | Some x \<Rightarrow> x) in
      \<lparr> time = nd_time d, lane = nd_lane d, ntype = nd_type d, duration = dur,
        endTime = nd_time d + dur, note_y = - 50, note_endY = - 50,
        isActive = False, isHit = False, isMissed = False, isHolding = False,
        holdCompleted = False \<rparr>)"

definition updatePosition :: "real \<Rightarrow> Note \<Rightarrow> Note" where
  "updatePosition currentTime n =
     (let tDiff = time n - currentTime;
          n1 = n\<lparr>note_y := JUDGMENT_LINE_Y - tDiff * NOTE_FALL_SPEED\<rparr>;
          n2 = (if ntype n1 = Hold
                then n1\<lparr>note_endY := JUDGMENT_LINE_Y - (endTime n1 - currentTime) * NOTE_FALL_SPEED\<rparr>
                else n1);
          n3 = (if tDiff \<le> NOTE_SPAWN_OFFSET \<and> \<not> isHit n2 \<and> \<not> isMissed n2
                then n2\<lparr>isActive := True\<rparr> else n2);
          n4 = (if ntype n3 = Tap
                then (if tDiff < - 200 \<and> \<not> isHit n3
                      then n3\<lparr>isMissed := True, isActive := False\<rparr> else n3)
                else n3);
          n5 = (if ntype n4 = Hold
                then (let m = (if tDiff < - 200 \<and> \<not> isHit n4 \<and> \<not> isHolding n4
                               then n4\<lparr>isMissed := True, isActive := False\<rparr> else n4)
                      in if isHolding m \<and> currentTime \<ge> endTime m
                         then m\<lparr>holdCompleted := True, isActive := False\<rparr> else m)
                else n4)
      in n5)"

definition hit :: "Note \<Rightarrow> Note" where
  "hit n =
     (let n1 = n\<lparr>isHit := True\<rparr> in
      if ntype n1 = Tap then n1\<lparr>isActive := False\<rparr>
      else if ntype n1 = Hold then n1\<lparr>isHolding := True\<rparr>
      else n1)"

text \<open>\<open>release\<close> returns the note after the call and the boolean the method returns.\<close>

definition release :: "real \<Rightarrow> Note \<Rightarrow> Note \<times> bool" where
  "release currentTime n =
     (if ntype n \<noteq> Hold \<or> \<not> isHolding n then (n, False)
      else
        let n1 = n\<lparr>isHolding := False\<rparr>;
            remainingTime = endTime n1 - currentTime
        in if remainingTime > 200 then (n1\<lparr>isActive := False\<rparr>, False)
           else (n1\<lparr>holdCompleted := True, isActive := False\<rparr>, True))"

definition miss :: "Note \<Rightarrow> Note" where
  "miss n = n\<lparr>isMissed := True, isActive := False, isHolding := False\<rparr>"

definition isProcessed :: "Note \<Rightarrow> bool" where
  "isProcessed n =
     (if ntype n = Tap then isHit n \<or> isMissed n
      else holdCompleted n \<or> isMissed n)"

section \<open>JudgmentSystem\<close>

record JudgmentWindow =
  jw_judgment :: Judgment
  window :: real
  jw_score :: real

definition JUDGMENT_WINDOWS :: "JudgmentWindow list" where
  "JUDGMENT_WINDOWS =
     [ \<lparr> jw_judgment = PERFECT, window = 25, jw_score = 1000 \<rparr>,
       \<lparr> jw_judgment = GREAT, window = 50, jw_score = 800 \<rparr>,
       \<lparr> jw_judgment = GOOD, window = 100, jw_score = 500 \<rparr>,
       \<lparr> jw_judgment = BAD, window = 150, jw_score = 200 \<rparr> ]"

definition MISS_WINDOW :: real where
  "MISS_WINDOW = 200"

text \<open>
  The \<open>for\<close> loop of \<open>judge\<close> over the window table: the first window that contains the
  absolute difference \<open>ad\<close> decides, and the result carries the signed difference \<open>sd\<close>.
\<close>

fun judge_windows :: "JudgmentWindow list \<Rightarrow> real \<Rightarrow> real \<Rightarrow> JudgmentResult option" where
  "judge_windows [] ad sd = None"
| "judge_windows (w # ws) ad sd =
     (if ad \<le> window w
      then Some \<lparr> jr_judgment = jw_judgment w, timeDiff = sd, score = jw_score w \<rparr>
      else judge_windows ws ad sd)"

definition judge :: "Note \<Rightarrow> real \<Rightarrow> JudgmentResult option" where
  "judge note currentTime =
     (let ad = \<bar>currentTime - time note\<bar> in
      case judge_windows JUDGMENT_WINDOWS ad (currentTime - time note) of
        Some r \<Rightarrow> Some r
      | None \<Rightarrow>
          if ad \<le> MISS_WINDOW
          then Some \<lparr> jr_judgment = BAD, timeDiff = currentTime - time note, score = 200 \<rparr>
          else None)"

text \<open>
  A note object is identified by its index in the notes array, so \<open>findHittableNote\<close> and
  \<open>checkMissedNotes\<close> return indices where the source returns references. The array built by
  \<open>Game\<close> holds one fresh object per chart entry, so no object occurs twice in it.
  \<open>closestDiff\<close> starts at \<open>Infinity\<close>, modelled by \<open>None\<close>.
\<close>

fun findHittable_loop ::
  "Note list \<Rightarrow> nat \<Rightarrow> int \<Rightarrow> real \<Rightarrow> nat option \<Rightarrow> real option \<Rightarrow> nat option" where
  "findHittable_loop [] i laneIx currentTime closestNote closestDiff = closestNote"
| "findHittable_loop (note # rest) i laneIx currentTime closestNote closestDiff =
     (if lane note \<noteq> laneIx \<or> isProcessed note
      then findHittable_loop rest (Suc i) laneIx currentTime closestNote closestDiff
      else
        let td = \<bar>currentTime - time note\<bar> in
        if td \<le> MISS_WINDOW \<and> (case closestDiff of None \<Rightarrow> True | Some c \<Rightarrow> td < c)
        then findHittable_loop rest (Suc i) laneIx currentTime (Some i) (Some td)
        else findHittable_loop rest (Suc i) laneIx currentTime closestNote closestDiff)"

definition findHittableNote :: "Note list \<Rightarrow> int \<Rightarrow> real \<Rightarrow> nat option" where
  "findHittableNote notes laneIx currentTime = findHittable_loop notes 0 laneIx currentTime None None"

text \<open>
  \<open>checkMissedNotes\<close> returns the notes array after the sweep and the indices pushed on
  \<open>missedNotes\<close>, in order.
\<close>

fun checkMissed_loop :: "Note list \<Rightarrow> nat \<Rightarrow> real \<Rightarrow> Note list \<times> nat list" where
  "checkMissed_loop [] i currentTime = ([], [])"
| "checkMissed_loop (note # rest) i currentTime =
     (case checkMissed_loop rest (Suc i) currentTime of (rest', missed) \<Rightarrow>
        if isProcessed note then (note # rest', missed)
        else if ntype note = Hold \<and> isHit note then (note # rest', missed)
        else if currentTime - time note > MISS_WINDOW then (miss note # rest', i # missed)
        else (note # rest', missed))"

definition checkMissedNotes :: "Note list \<Rightarrow> real \<Rightarrow> Note list \<times> nat list" where
  "checkMissedNotes notes currentTime = checkMissed_loop notes 0 currentTime"

definition isHitJudgment :: "Judgment \<Rightarrow> bool" where
  "isHitJudgment j = (j = PERFECT \<or> j = GREAT \<or> j = GOOD)"

section \<open>ScoreSystem\<close>

record ScoreStats =
  n_perfect :: nat
  n_great :: nat
  n_good :: nat
  n_bad :: nat
  n_miss :: nat

record ScoreSystem =
  sc_score :: real
  sc_combo :: nat
  sc_maxCombo :: nat
  sc_stats :: ScoreStats

definition ScoreSystem_new :: ScoreSystem where
  "ScoreSystem_new =
     \<lparr> sc_score = 0, sc_combo = 0, sc_maxCombo = 0,
       sc_stats = \<lparr> n_perfect = 0, n_great = 0, n_good = 0, n_bad = 0, n_miss = 0 \<rparr> \<rparr>"

fun updateStats :: "Judgment \<Rightarrow> ScoreStats \<Rightarrow> ScoreStats" where
  "updateStats PERFECT st = st\<lparr>n_perfect := n_perfect st + 1\<rparr>"
| "updateStats GREAT st = st\<lparr>n_great := n_great st + 1\<rparr>"
| "updateStats GOOD st = st\<lparr>n_good := n_good st + 1\<rparr>"
| "updateStats BAD st = st\<lparr>n_bad := n_bad st + 1\<rparr>"
| "updateStats MISS st = st\<lparr>n_miss := n_miss st + 1\<rparr>"

definition getComboMultiplier :: "ScoreSystem \<Rightarrow> real" where
  "getComboMultiplier s =
     (if sc_combo s \<ge> 100 then 2
      else if sc_combo s \<ge> 50 then 3 / 2
      else if sc_combo s \<ge> 25 then 5 / 4
      else if sc_combo s \<ge> 10 then 11 / 10
      else 1)"

text \<open>
  \<open>getComboMultiplier\<close> returns the decimal value of the literal in the source; the product
  in \<open>addJudgment\<close> is the binary64 product of the points and of the binary64 number the
  literal denotes, and the two additions to the score are binary64 additions.
\<close>

definition addJudgment :: "JudgmentResult \<Rightarrow> ScoreSystem \<Rightarrow> ScoreSystem" where
  "addJudgment result s =
     (let s1 = s\<lparr>sc_stats := updateStats (jr_judgment result) (sc_stats s)\<rparr> in
      if isHitJudgment (jr_judgment result)
      then
        let s2 = s1\<lparr>sc_combo := sc_combo s1 + 1\<rparr>;
            s3 = (if sc_combo s2 > sc_maxCombo s2 then s2\<lparr>sc_maxCombo := sc_combo s2\<rparr> else s2);
            comboMultiplier = getComboMultiplier s3
        in s3\<lparr>sc_score :=
                fl (sc_score s3 + of_int \<lfloor>fl (score result * fl comboMultiplier)\<rfloor>)\<rparr>
      else
        s1\<lparr>sc_combo := 0, sc_score := fl (sc_score s1 + score result)\<rparr>)"

definition score_miss :: "ScoreSystem \<Rightarrow> ScoreSystem" where
  "score_miss s =
     s\<lparr>sc_stats := (sc_stats s)\<lparr>n_miss := n_miss (sc_stats s) + 1\<rparr>, sc_combo := 0\<rparr>"

definition score_reset :: "ScoreSystem \<Rightarrow> ScoreSystem" where
  "score_reset s = ScoreSystem_new"

section \<open>Clock\<close>

text \<open>
  The timing fields of class \<open>Clock\<close> (its audio device handle takes no part in the time
  computation). \<open>now\<close> is the value \<open>performance.now()\<close> returns during the call.
\<close>

record Clock =
  startTime :: real
  pauseTime :: real
  clk_isRunning :: bool
  offset :: real

definition Clock_new :: Clock where
  "Clock_new = \<lparr> startTime = 0, pauseTime = 0, clk_isRunning = False, offset = 0 \<rparr>"

definition clock_start :: "real \<Rightarrow> real \<Rightarrow> Clock \<Rightarrow> Clock" where
  "clock_start now off c =
     (if clk_isRunning c then c
      else
        let c1 = c\<lparr>offset := off\<rparr>;
            c2 = (if pauseTime c1 > 0
                  then (let pausedDuration = pauseTime c1 - startTime c1
                        in c1\<lparr>startTime := now - pausedDuration\<rparr>)
                  else c1\<lparr>startTime := now\<rparr>)
        in c2\<lparr>clk_isRunning := True, pauseTime := 0\<rparr>)"

definition clock_pause :: "real \<Rightarrow> Clock \<Rightarrow> Clock" where
  "clock_pause now c =
     (if \<not> clk_isRunning c then c
      else c\<lparr>pauseTime := now, clk_isRunning := False\<rparr>)"

definition clock_reset :: "Clock \<Rightarrow> Clock" where
  "clock_reset c = c\<lparr>startTime := 0, pauseTime := 0, clk_isRunning := False, offset := 0\<rparr>"


section \<open>GameLoop\<close>

text \<open>
  The state of class \<open>GameLoop\<close>. The two callbacks run against a world \<open>'w\<close> outside the
  loop object; the only thing a callback can do to the loop through its public interface while
  it runs is to call \<open>stop()\<close>, and the boolean a callback returns says whether it did.
  \<open>loop\<close> returns the calls it made to the callbacks, in order. \<open>rafId\<close> is the handle
  \<open>requestAnimationFrame\<close> returns (the host never returns zero). The \<open>while\<close> loop of
  \<open>loop\<close> does not end when the accumulator is so large that subtracting a timestep rounds
  back to it, so \<open>loop\<close> and \<open>start\<close> return an option, \<open>None\<close> when they do not return.
\<close>

record GameLoop =
  lastTime :: real
  accumulator :: real
  animationFrameId :: nat
  gl_isRunning :: bool

datatype callback_call = OnUpdate real | OnRender real

definition GameLoop_new :: GameLoop where
  "GameLoop_new = \<lparr> lastTime = 0, accumulator = 0, animationFrameId = 0, gl_isRunning = False \<rparr>"

definition timestep :: real where
  "timestep = FIXED_TIMESTEP"

definition maxAccumulator :: real where
  "maxAccumulator = fl (timestep * 5)"

text \<open>\<open>consume a\<close> is the accumulator after one update has taken a timestep from \<open>a\<close>.\<close>

definition consume :: "real \<Rightarrow> real" where
  "consume a = fl (a - timestep)"

definition gl_stop :: "GameLoop \<Rightarrow> GameLoop" where
  "gl_stop g =
     (let g1 = g\<lparr>gl_isRunning := False\<rparr> in
      if animationFrameId g1 \<noteq> 0 then g1\<lparr>animationFrameId := 0\<rparr> else g1)"

text \<open>The \<open>while (this.accumulator >= this.timestep)\<close> loop of \<open>loop\<close>.\<close>

partial_function (option) fixed_updates ::
  "(real \<Rightarrow> 'w \<Rightarrow> 'w \<times> bool) \<Rightarrow> GameLoop \<Rightarrow> 'w \<Rightarrow> callback_call list
     \<Rightarrow> (GameLoop \<times> 'w \<times> callback_call list) option" where
  "fixed_updates onUpdate g w calls =
     (if accumulator g \<ge> timestep
      then
        (case onUpdate timestep w of (w', stopped) \<Rightarrow>
           let g1 = (if stopped then gl_stop g else g)
           in fixed_updates onUpdate (g1\<lparr>accumulator := fl (accumulator g1 - timestep)\<rparr>) w'
                (calls @ [OnUpdate timestep]))
      else Some (g, w, calls))"

definition gl_loop ::
  "(real \<Rightarrow> 'w \<Rightarrow> 'w \<times> bool) \<Rightarrow> (real \<Rightarrow> 'w \<Rightarrow> 'w \<times> bool) \<Rightarrow> real \<Rightarrow> nat
     \<Rightarrow> GameLoop \<Rightarrow> 'w \<Rightarrow> (GameLoop \<times> 'w \<times> callback_call list) option" where
  "gl_loop onUpdate onRender now rafId g w =
     (if \<not> gl_isRunning g then Some (g, w, [])
      else
        let frameTime = fl (now - lastTime g);
            g1 = g\<lparr>lastTime := now\<rparr>;
            frameTime' = (if frameTime > maxAccumulator then maxAccumulator else frameTime);
            g2 = g1\<lparr>accumulator := fl (accumulator g1 + frameTime')\<rparr>
        in case fixed_updates onUpdate g2 w [] of
             None \<Rightarrow> None
           | Some (g3, w3, calls) \<Rightarrow>
               let interpolation = fl (accumulator g3 / timestep)
               in case onRender interpolation w3 of (w4, stopped) \<Rightarrow>
                    let g4 = (if stopped then gl_stop g3 else g3)
                    in Some (g4\<lparr>animationFrameId := rafId\<rparr>, w4,
                             calls @ [OnRender interpolation]))"

text \<open>\<open>start\<close> reads the timer once itself (\<open>now0\<close>) and once more inside \<open>loop\<close> (\<open>now1\<close>).\<close>

definition gl_start ::
  "(real \<Rightarrow> 'w \<Rightarrow> 'w \<times> bool) \<Rightarrow> (real \<Rightarrow> 'w \<Rightarrow> 'w \<times> bool) \<Rightarrow> real \<Rightarrow> real \<Rightarrow> nat
     \<Rightarrow> GameLoop \<Rightarrow> 'w \<Rightarrow> (GameLoop \<times> 'w \<times> callback_call list) option" where
  "gl_start onUpdate onRender now0 now1 rafId g w =
     (if gl_isRunning g then Some (g, w, [])
      else gl_loop onUpdate onRender now1 rafId
             (g\<lparr>gl_isRunning := True, lastTime := now0, accumulator := 0\<rparr>) w)"

section \<open>Game\<close>

text \<open>
  The part of class \<open>Game\<close> that ties notes, judgment and score together. The handlers take
  the clock reading \<open>currentTime\<close> they obtain from the audio manager as an argument. Calls to
  the renderer do not change the state below and are left out. \<open>holdingNotes\<close> is a
  JavaScript \<open>Map\<close> from lane to note: an association list in insertion order with one
  entry per key, holding the index of the note in \<open>notes\<close>.
\<close>

datatype GameState = loading | ready | playing | paused | ended

record Game =
  g_notes :: "Note list"
  holdingNotes :: "(int \<times> nat) list"
  scoreSystem :: ScoreSystem
  g_state :: GameState

fun hmap_get :: "int \<Rightarrow> (int \<times> nat) list \<Rightarrow> nat option" where
  "hmap_get k [] = None"
| "hmap_get k ((k', v) # es) = (if k' = k then Some v else hmap_get k es)"

fun hmap_set :: "int \<Rightarrow> nat \<Rightarrow> (int \<times> nat) list \<Rightarrow> (int \<times> nat) list" where
  "hmap_set k v [] = [(k, v)]"
| "hmap_set k v ((k', v') # es) = (if k' = k then (k, v) # es else (k', v') # hmap_set k v es)"

fun hmap_delete :: "int \<Rightarrow> (int \<times> nat) list \<Rightarrow> (int \<times> nat) list" where
  "hmap_delete k [] = []"
| "hmap_delete k ((k', v) # es) = (if k' = k then hmap_delete k es else (k', v) # hmap_delete k es)"

text \<open>
  The loop of \<open>update\<close> over the entries of \<open>holdingNotes\<close>: a tracked hold that has
  completed is awarded and removed from the map.
\<close>

fun completedHolds_loop ::
  "(int \<times> nat) list \<Rightarrow> Note list \<Rightarrow> (int \<times> nat) list \<Rightarrow> ScoreSystem
     \<Rightarrow> (int \<times> nat) list \<times> ScoreSystem" where
  "completedHolds_loop [] ns hn sc = (hn, sc)"
| "completedHolds_loop ((l, i) # es) ns hn sc =
     (if holdCompleted (ns ! i)
      then completedHolds_loop es ns (hmap_delete l hn)
             (addJudgment \<lparr> jr_judgment = PERFECT, timeDiff = 0, score = 1000 \<rparr> sc)
      else completedHolds_loop es ns hn sc)"

text \<open>The loop of \<open>update\<close> over the notes \<open>checkMissedNotes\<close> returned.\<close>

fun missedNotes_loop ::
  "nat list \<Rightarrow> Note list \<Rightarrow> (int \<times> nat) list \<Rightarrow> ScoreSystem \<Rightarrow> ScoreSystem" where
  "missedNotes_loop [] ns hn sc = sc"
| "missedNotes_loop (i # rest) ns hn sc =
     (if ntype (ns ! i) = Hold \<and> hmap_get (lane (ns ! i)) hn = Some i
      then missedNotes_loop rest ns hn sc
      else missedNotes_loop rest ns hn (score_miss sc))"

definition lastNoteTime :: "Note list \<Rightarrow> real" where
  "lastNoteTime ns =
     (case map (\<lambda>n. if ntype n = Hold then endTime n else time n) ns of
        [] \<Rightarrow> 0
      | t # ts \<Rightarrow> fold max ts t)"

text \<open>
  \<open>onSongEnd\<close> ends the session and stops the game loop; the boolean returned with the game
  says that \<open>gameLoop.stop()\<close> was called.
\<close>

definition onSongEnd :: "Game \<Rightarrow> Game \<times> bool" where
  "onSongEnd g = (g\<lparr>g_state := ended\<rparr>, True)"

definition update :: "real \<Rightarrow> Game \<Rightarrow> Game \<times> bool" where
  "update currentTime g =
     (if g_state g \<noteq> playing then (g, False)
      else
        let ns1 = map (updatePosition currentTime) (g_notes g)
        in case completedHolds_loop (holdingNotes g) ns1 (holdingNotes g) (scoreSystem g) of
             (hn, sc) \<Rightarrow>
               (case checkMissedNotes ns1 currentTime of
                  (ns2, missedNotes) \<Rightarrow>
                    let sc' = missedNotes_loop missedNotes ns2 hn sc;
                        g' = g\<lparr>g_notes := ns2, holdingNotes := hn, scoreSystem := sc'\<rparr>
                    in if currentTime > lastNoteTime ns2 + 2000 then onSongEnd g'
                       else (g', False)))"

definition onKeyDown :: "int \<Rightarrow> real \<Rightarrow> Game \<Rightarrow> Game" where
  "onKeyDown l currentTime g =
     (if g_state g \<noteq> playing then g
      else
        case findHittableNote (g_notes g) l currentTime of
          None \<Rightarrow> g
        | Some i \<Rightarrow>
            (case judge (g_notes g ! i) currentTime of
               None \<Rightarrow> g
             | Some result \<Rightarrow>
                 let n' = hit (g_notes g ! i)
                 in g\<lparr>g_notes := (g_notes g)[i := n'],
                      scoreSystem := addJudgment result (scoreSystem g),
                      holdingNotes := (if ntype n' = Hold then hmap_set l i (holdingNotes g)
                                       else holdingNotes g)\<rparr>))"

definition onKeyUp :: "int \<Rightarrow> real \<Rightarrow> Game \<Rightarrow> Game" where
  "onKeyUp l currentTime g =
     (if g_state g \<noteq> playing then g
      else
        case hmap_get l (holdingNotes g) of
          None \<Rightarrow> g
        | Some i \<Rightarrow>
            (case release currentTime (g_notes g ! i) of
               (n', success) \<Rightarrow>
                 g\<lparr>g_notes := (g_notes g)[i := n'],
                    scoreSystem :=
                      (if success
                       then addJudgment \<lparr> jr_judgment = PERFECT, timeDiff = 0, score = 500 \<rparr>
                              (scoreSystem g)
                       else score_miss (scoreSystem g)),
                    holdingNotes := hmap_delete l (holdingNotes g)\<rparr>))"

section \<open>Scenario notes and call sequences\<close>

text \<open>
  The notes of the scenarios: a tap note and a hold note at 1000 ms in lane 0, the hold lasting
  2000 ms, and that hold after it was grabbed and let go at 1500 ms.
\<close>

definition tapAt1000 :: Note where
  "tapAt1000 = Note_new \<lparr> nd_time = 1000, nd_lane = 0, nd_type = Tap, nd_duration = None \<rparr>"

definition holdAt1000 :: Note where
  "holdAt1000 = Note_new \<lparr> nd_time = 1000, nd_lane = 0, nd_type = Hold, nd_duration = Some 2000 \<rparr>"

definition earlyReleasedHold :: Note where
  "earlyReleasedHold = fst (release 1500 (hit holdAt1000))"

text \<open>
  A sequence of calls on the notes array: \<open>updatePosition\<close> on the note at an index, or a
  \<open>checkMissedNotes\<close> sweep over the array. \<open>releasedEarly\<close> is the state of a hold note
  that was grabbed and released before its end.
\<close>

datatype note_call = UpdatePosition nat real | CheckMissedNotes real

fun apply_call :: "note_call \<Rightarrow> Note list \<Rightarrow> Note list" where
  "apply_call (UpdatePosition k t) ns = ns[k := updatePosition t (ns ! k)]"
| "apply_call (CheckMissedNotes t) ns = fst (checkMissedNotes ns t)"

definition releasedEarly :: "Note \<Rightarrow> bool" where
  "releasedEarly n =
     (ntype n = Hold \<and> isHit n \<and> \<not> isHolding n \<and> \<not> holdCompleted n \<and> \<not> isMissed n)"


text \<open>
  Callbacks on a world without state: one that calls \<open>stop()\<close> on the loop, one that does
  not. \<open>stoppedInFrame\<close> is the loop after \<open>start()\<close> at timer reading 0 and a second frame
  at 20 whose update callback stopped the loop; \<open>midFrameLoop\<close> is a running loop that
  carries 10 ms in its accumulator and \<open>freshRunningLoop\<close> one that carries nothing.
  \<open>recordUpdate\<close> and \<open>recordRender\<close> are callbacks that write the argument they receive
  on a list.
\<close>

definition stopOnUpdate :: "real \<Rightarrow> unit \<Rightarrow> unit \<times> bool" where
  "stopOnUpdate dt w = (w, True)"

definition quietCallback :: "real \<Rightarrow> unit \<Rightarrow> unit \<times> bool" where
  "quietCallback x w = (w, False)"

definition stoppedInFrame :: GameLoop where
  "stoppedInFrame =
     (case gl_start stopOnUpdate quietCallback 0 0 1 GameLoop_new () of
        None \<Rightarrow> GameLoop_new
      | Some (g1, w1, calls1) \<Rightarrow>
          (case gl_loop stopOnUpdate quietCallback 20 2 g1 w1 of
             None \<Rightarrow> GameLoop_new
           | Some (g2, w2, calls2) \<Rightarrow> g2))"

definition freshRunningLoop :: GameLoop where
  "freshRunningLoop = \<lparr> lastTime = 0, accumulator = 0, animationFrameId = 1, gl_isRunning = True \<rparr>"

definition recordUpdate :: "real \<Rightarrow> callback_call list \<Rightarrow> callback_call list \<times> bool" where
  "recordUpdate dt w = (w @ [OnUpdate dt], False)"

definition recordRender :: "real \<Rightarrow> callback_call list \<Rightarrow> callback_call list \<times> bool" where
  "recordRender x w = (w @ [OnRender x], False)"

definition midFrameLoop :: GameLoop where
  "midFrameLoop = \<lparr> lastTime = 0, accumulator = 10, animationFrameId = 1, gl_isRunning = True \<rparr>"

text \<open>
  A session that plays the single hold note, and the same session after the key of lane 0 went
  down at 1000.
\<close>

definition holdGame :: Game where
  "holdGame = \<lparr> g_notes = [holdAt1000], holdingNotes = [], scoreSystem = ScoreSystem_new,
                 g_state = playing \<rparr>"

definition grabbedHoldGame :: Game where
  "grabbedHoldGame = onKeyDown 0 1000 holdGame"

section \<open>Judging a key press\<close>




section \<open>Releasing a hold\<close>



section \<open>The passive miss sweep\<close>

text \<open>What the loop of \<open>checkMissedNotes\<close> does to the array, and which indices it collects.\<close>

lemma checkMissed_loop_notes:
  "fst (checkMissed_loop ns i ct) =
     map (\<lambda>n. if \<not> isProcessed n \<and> \<not> (ntype n = Hold \<and> isHit n) \<and> ct - time n > 200
              then miss n else n) ns"
proof (induction ns arbitrary: i)
  case Nil
  then show ?case by simp
next
  case (Cons n ns)
  obtain rest' missed where r: "checkMissed_loop ns (Suc i) ct = (rest', missed)"
    by (cases "checkMissed_loop ns (Suc i) ct")
  with Cons.IH [of "Suc i"] show ?case
    by (auto simp: MISS_WINDOW_def)
qed

lemma checkMissed_loop_indices:
  "snd (checkMissed_loop ns i ct) =
     map (\<lambda>k. i + k)
       (filter (\<lambda>k. \<not> isProcessed (ns ! k) \<and> \<not> (ntype (ns ! k) = Hold \<and> isHit (ns ! k))
                     \<and> ct - time (ns ! k) > 200) [0..<length ns])"
proof (induction ns arbitrary: i)
  case Nil
  then show ?case by simp
next
  case (Cons n ns)
  have upt: "[0..<length (n # ns)] = 0 # map Suc [0..<length ns]"
    by (simp add: upt_conv_Cons map_Suc_upt del: upt_Suc)
  obtain rest' missed where r: "checkMissed_loop ns (Suc i) ct = (rest', missed)"
    by (cases "checkMissed_loop ns (Suc i) ct")
  with Cons.IH [of "Suc i"] show ?case
    unfolding upt
    by (auto simp: filter_map comp_def MISS_WINDOW_def)
qed

text \<open>
  Claim C2, as the code has it. \<open>checkMissedNotes\<close> calls \<open>miss()\<close> on, and returns,
  exactly the notes that are unprocessed, are not hold notes that have been hit (whether still
  held or already released), and satisfy \<open>currentTime - note.time > 200\<close>; every other note
  is left as it was. A tap note at 1000 that was never pressed is marked missed by the sweep at
  1201 and is still unprocessed after the sweep at 1199.
\<close>

theorem checkMissedNotes_sweep:
  "checkMissedNotes notes ct =
     (map (\<lambda>n. if \<not> isProcessed n \<and> \<not> (ntype n = Hold \<and> isHit n) \<and> ct - time n > 200
               then miss n else n) notes,
      filter (\<lambda>k. \<not> isProcessed (notes ! k) \<and> \<not> (ntype (notes ! k) = Hold \<and> isHit (notes ! k))
                    \<and> ct - time (notes ! k) > 200) [0..<length notes]) \<and>
   checkMissedNotes [tapAt1000] 1201 = ([miss tapAt1000], [0]) \<and>
   isMissed (miss tapAt1000) \<and>
   checkMissedNotes [tapAt1000] 1199 = ([tapAt1000], []) \<and>
   \<not> isProcessed tapAt1000"
proof -
  have general: "checkMissedNotes ns t =
     (map (\<lambda>n. if \<not> isProcessed n \<and> \<not> (ntype n = Hold \<and> isHit n) \<and> t - time n > 200
               then miss n else n) ns,
      filter (\<lambda>k. \<not> isProcessed (ns ! k) \<and> \<not> (ntype (ns ! k) = Hold \<and> isHit (ns ! k))
                    \<and> t - time (ns ! k) > 200) [0..<length ns])" for ns t
    using checkMissed_loop_notes [of ns 0 t] checkMissed_loop_indices [of ns 0 t]
    by (simp add: checkMissedNotes_def prod_eq_iff)
  have tap: "\<not> isProcessed tapAt1000" "time tapAt1000 = 1000" "ntype tapAt1000 = Tap"
    by (simp_all add: tapAt1000_def Note_new_def isProcessed_def)
  show ?thesis
    using tap by (simp add: general miss_def)
qed

text \<open>A sweep at 1300 over an unpressed tap, a hold released early and an ungrabbed hold.\<close>

theorem checkMissedNotes_sweep_witness:
  "checkMissedNotes [tapAt1000, earlyReleasedHold, holdAt1000] 1300
     = ([miss tapAt1000, earlyReleasedHold, miss holdAt1000], [0, 2])"
  using checkMissedNotes_sweep [of "[tapAt1000, earlyReleasedHold, holdAt1000]" 1300]
  by (simp add: tapAt1000_def earlyReleasedHold_def holdAt1000_def Note_new_def isProcessed_def
        hit_def release_def upt_rec)

text \<open>
  Claim C2 as stated excludes only hold notes that are being held. A hold released early is
  unprocessed, is not being held and is more than 200 ms late at 5000, yet the sweep skips it:
  the guard of the loop tests \<open>isHit\<close>, not \<open>isHolding\<close>.
\<close>

theorem checkMissedNotes_held_counterexample:
  "\<not> isProcessed earlyReleasedHold \<and>
   \<not> (ntype earlyReleasedHold = Hold \<and> isHolding earlyReleasedHold) \<and>
   5000 - time earlyReleasedHold > 200 \<and>
   checkMissedNotes [earlyReleasedHold] 5000 = ([earlyReleasedHold], [])"
  by (simp add: checkMissedNotes_def earlyReleasedHold_def holdAt1000_def Note_new_def
        isProcessed_def hit_def release_def MISS_WINDOW_def)

section \<open>A hold released early\<close>

lemma hit_release_early:
  assumes "ntype n0 = Hold" "\<not> isProcessed n0" "release ct (hit n0) = (n1, False)"
  shows "releasedEarly n1" "time n1 = time n0" "lane n1 = lane n0"
  using assms
  by (auto simp: releasedEarly_def release_def hit_def isProcessed_def Let_def split: if_splits)

lemma updatePosition_releasedEarly:
  assumes "releasedEarly n"
  shows "releasedEarly (updatePosition t n)"
    and "time (updatePosition t n) = time n"
    and "lane (updatePosition t n) = lane n"
  using assms by (simp_all add: releasedEarly_def updatePosition_def Let_def)

lemma apply_call_length: "length (apply_call c ns) = length ns"
  by (cases c) (simp_all add: checkMissedNotes_def checkMissed_loop_notes)

lemma apply_call_releasedEarly:
  assumes "i < length ns" "releasedEarly (ns ! i)"
  shows "releasedEarly (apply_call c ns ! i)
         \<and> time (apply_call c ns ! i) = time (ns ! i)
         \<and> lane (apply_call c ns ! i) = lane (ns ! i)"
proof (cases c)
  case (UpdatePosition k t)
  show ?thesis
  proof (cases "k = i")
    case True
    with assms UpdatePosition show ?thesis
      by (simp add: updatePosition_releasedEarly)
  next
    case False
    with assms UpdatePosition show ?thesis by simp
  qed
next
  case (CheckMissedNotes t)
  have "ntype (ns ! i) = Hold \<and> isHit (ns ! i)"
    using assms(2) by (simp add: releasedEarly_def)
  with assms CheckMissedNotes show ?thesis
    by (simp add: checkMissedNotes_def checkMissed_loop_notes)
qed

lemma fold_apply_call_releasedEarly:
  "i < length ns \<Longrightarrow> releasedEarly (ns ! i) \<Longrightarrow>
   length (fold apply_call cs ns) = length ns
   \<and> releasedEarly (fold apply_call cs ns ! i)
   \<and> time (fold apply_call cs ns ! i) = time (ns ! i)
   \<and> lane (fold apply_call cs ns ! i) = lane (ns ! i)"
proof (induction cs arbitrary: ns)
  case Nil
  then show ?case by simp
next
  case (Cons c cs)
  have len: "i < length (apply_call c ns)"
    using Cons.prems(1) by (simp add: apply_call_length)
  have step: "releasedEarly (apply_call c ns ! i)
         \<and> time (apply_call c ns ! i) = time (ns ! i)
         \<and> lane (apply_call c ns ! i) = lane (ns ! i)"
    using Cons.prems by (rule apply_call_releasedEarly)
  from Cons.IH [OF len] step show ?case
    by (simp add: apply_call_length)
qed

text \<open>
  \<open>findHittableNote\<close> passes over notes of other lanes and processed notes, so a note that is
  the only candidate of its lane is the one returned.
\<close>

lemma findHittable_loop_skip:
  "\<forall>n \<in> set xs. lane n \<noteq> l \<or> isProcessed n \<Longrightarrow>
   findHittable_loop (xs @ ys) i l t cn cd = findHittable_loop ys (i + length xs) l t cn cd"
  by (induction xs arbitrary: i) simp_all

lemma findHittable_loop_only:
  assumes "j < length ns"
    and "\<forall>k < length ns. k \<noteq> j \<longrightarrow> lane (ns ! k) \<noteq> l \<or> isProcessed (ns ! k)"
    and "lane (ns ! j) = l" "\<not> isProcessed (ns ! j)" "\<bar>t - time (ns ! j)\<bar> \<le> 200"
  shows "findHittable_loop ns i l t None None = Some (i + j)"
proof -
  have split: "ns = take j ns @ ns ! j # drop (Suc j) ns"
    using assms(1) by (simp add: id_take_nth_drop)
  have before: "\<forall>n \<in> set (take j ns). lane n \<noteq> l \<or> isProcessed n"
  proof
    fix n assume "n \<in> set (take j ns)"
    then obtain k where k: "k < length (take j ns)" "take j ns ! k = n"
      by (auto simp: in_set_conv_nth)
    then have "k < j" "k < length ns" "ns ! k = n" using assms(1) by simp_all
    with assms(2) show "lane n \<noteq> l \<or> isProcessed n" by auto
  qed
  have after: "\<forall>n \<in> set (drop (Suc j) ns). lane n \<noteq> l \<or> isProcessed n"
  proof
    fix n assume "n \<in> set (drop (Suc j) ns)"
    then obtain k where k: "k < length (drop (Suc j) ns)" "drop (Suc j) ns ! k = n"
      by (auto simp: in_set_conv_nth)
    then have "Suc j + k < length ns" "ns ! (Suc j + k) = n" by simp_all
    with assms(2) show "lane n \<noteq> l \<or> isProcessed n" by auto
  qed
  have tail: "findHittable_loop (drop (Suc j) ns) i' l t cn cd = cn" for i' cn cd
    using findHittable_loop_skip [OF after, of "[]" i' t cn cd] by simp
  have "findHittable_loop ns i l t None None
        = findHittable_loop (ns ! j # drop (Suc j) ns) (i + length (take j ns)) l t None None"
    using findHittable_loop_skip [OF before, of "ns ! j # drop (Suc j) ns" i t None None] split
    by simp
  also have "\<dots> = Some (i + j)"
    using assms by (simp add: MISS_WINDOW_def tail min_def)
  finally show ?thesis .
qed

text \<open>
  Claim C10. A hold note that was unprocessed when grabbed with \<open>hit()\<close> and whose
  \<open>release\<close> then failed has \<open>hit\<close> true and \<open>holding\<close>, \<open>holdCompleted\<close> and
  \<open>missed\<close> false, so it is not processed. After any sequence of \<open>updatePosition\<close> and
  \<open>checkMissedNotes\<close> calls, at any times, it is still neither missed nor processed, and
  \<open>findHittableNote\<close> returns this very note for its lane at every query time within 200 ms
  of the note's time when no other unprocessed note of the lane competes.
\<close>

theorem early_release_limbo:
  assumes "ntype n0 = Hold" and "\<not> isProcessed n0"
    and "release ct (hit n0) = (n1, False)"
    and "i < length ns" and "ns ! i = n1"
  shows "isHit n1 \<and> \<not> isHolding n1 \<and> \<not> holdCompleted n1 \<and> \<not> isMissed n1 \<and> \<not> isProcessed n1 \<and>
         (let ns' = fold apply_call calls ns in
            length ns' = length ns \<and>
            \<not> isMissed (ns' ! i) \<and> \<not> isProcessed (ns' ! i) \<and>
            (\<bar>t - time (ns' ! i)\<bar> \<le> 200 \<and>
             (\<forall>k < length ns'. k \<noteq> i \<longrightarrow> lane (ns' ! k) \<noteq> lane (ns' ! i) \<or> isProcessed (ns' ! k))
             \<longrightarrow> findHittableNote ns' (lane (ns' ! i)) t = Some i))"
proof -
  have early: "releasedEarly n1"
    using assms(1-3) by (rule hit_release_early)
  then have here: "isHit n1 \<and> \<not> isHolding n1 \<and> \<not> holdCompleted n1 \<and> \<not> isMissed n1 \<and> \<not> isProcessed n1"
    by (simp add: releasedEarly_def isProcessed_def)
  define ns' where "ns' = fold apply_call calls ns"
  have inv: "length ns' = length ns \<and> releasedEarly (ns' ! i)"
    using fold_apply_call_releasedEarly [of i ns calls] assms(4,5) early
    by (simp add: ns'_def)
  then have unproc: "\<not> isMissed (ns' ! i) \<and> \<not> isProcessed (ns' ! i)"
    by (simp add: releasedEarly_def isProcessed_def)
  have find: "findHittableNote ns' (lane (ns' ! i)) t = Some i"
    if "\<bar>t - time (ns' ! i)\<bar> \<le> 200"
      and "\<forall>k < length ns'. k \<noteq> i \<longrightarrow> lane (ns' ! k) \<noteq> lane (ns' ! i) \<or> isProcessed (ns' ! k)"
  proof -
    have "i < length ns'" using inv assms(4) by simp
    from findHittable_loop_only [OF this that(2) refl _ that(1), of 0] unproc
    show ?thesis by (simp add: findHittableNote_def)
  qed
  show ?thesis
    using here inv unproc find by (simp add: ns'_def Let_def)
qed

text \<open>
  The hold at 1000 released at 1500, then an update and a sweep at 4000, then a key press
  at 1100.
\<close>

theorem early_release_limbo_witness:
  "release 1500 (hit holdAt1000) = (earlyReleasedHold, False) \<and>
   \<not> isMissed (fold apply_call [UpdatePosition 0 4000, CheckMissedNotes 4000] [earlyReleasedHold] ! 0) \<and>
   findHittableNote
     (fold apply_call [UpdatePosition 0 4000, CheckMissedNotes 4000] [earlyReleasedHold]) 0 1100
     = Some 0"
proof -
  have h1: "ntype holdAt1000 = Hold" and h2: "\<not> isProcessed holdAt1000"
    by (simp_all add: holdAt1000_def Note_new_def isProcessed_def)
  have h3: "release 1500 (hit holdAt1000) = (earlyReleasedHold, False)"
    by (simp add: earlyReleasedHold_def holdAt1000_def Note_new_def release_def hit_def)
  have h4: "0 < length [earlyReleasedHold]" and h5: "[earlyReleasedHold] ! 0 = earlyReleasedHold"
    by simp_all
  have tm: "time earlyReleasedHold = 1000" and ln: "lane earlyReleasedHold = 0"
    by (simp_all add: earlyReleasedHold_def holdAt1000_def Note_new_def release_def hit_def)
  have keep: "time (fold apply_call [UpdatePosition 0 4000, CheckMissedNotes 4000] [earlyReleasedHold] ! 0) = 1000
     \<and> lane (fold apply_call [UpdatePosition 0 4000, CheckMissedNotes 4000] [earlyReleasedHold] ! 0) = 0"
    using fold_apply_call_releasedEarly
            [of 0 "[earlyReleasedHold]" "[UpdatePosition 0 4000, CheckMissedNotes 4000]"]
          hit_release_early(1) [OF h1 h2 h3] tm ln
    by simp
  from early_release_limbo
         [OF h1 h2 h3 h4 h5, of "[UpdatePosition 0 4000, CheckMissedNotes 4000]" 1100]
       keep h3
  show ?thesis
    by (simp add: Let_def)
qed

section \<open>Pausing and resuming the clock\<close>




section \<open>Rounding to binary64\<close>

text \<open>
  \<open>expo\<close> returns the exponent of the binade its argument lies in, so \<open>fl\<close> can be
  computed from the binade; \<open>fl\<close> is monotone on the non-negative numbers, leaves integers
  below \<open>2^53\<close> and its own results as they are.
\<close>

declare expo_hi.simps [simp del]

lemma rne_bounds: "\<lfloor>x\<rfloor> \<le> rne x \<and> rne x \<le> \<lfloor>x\<rfloor> + 1"
  by (simp add: rne_def Let_def)

lemma rne_of_int [simp]: "rne (of_int n) = n"
  by (simp add: rne_def)

lemma rne_mono: "x \<le> y \<Longrightarrow> rne x \<le> rne y"
proof -
  assume le: "x \<le> y"
  then have fm: "\<lfloor>x\<rfloor> \<le> \<lfloor>y\<rfloor>" by (rule floor_mono)
  show ?thesis
  proof (cases "\<lfloor>x\<rfloor> = \<lfloor>y\<rfloor>")
    case True
    then have "x - of_int \<lfloor>x\<rfloor> \<le> y - of_int \<lfloor>y\<rfloor>" using le by simp
    with True show ?thesis by (auto simp: rne_def Let_def)
  next
    case False
    with fm have "\<lfloor>x\<rfloor> + 1 \<le> \<lfloor>y\<rfloor>" by simp
    with rne_bounds [of x] rne_bounds [of y] show ?thesis by linarith
  qed
qed

lemma expo_hi_bounds:
  "1 \<le> x \<Longrightarrow> 0 \<le> expo_hi x \<and> 2 powi expo_hi x \<le> x \<and> x < 2 powi (expo_hi x + 1)"
proof (induction x rule: expo_hi.induct)
  case (1 x)
  show ?case
  proof (cases "2 \<le> x")
    case True
    then have "1 \<le> x / 2" by simp
    from "1.IH" [OF True this]
    have ih: "0 \<le> expo_hi (x / 2)" "2 powi expo_hi (x / 2) \<le> x / 2"
      "x / 2 < 2 powi (expo_hi (x / 2) + 1)" by simp_all
    have e: "expo_hi x = expo_hi (x / 2) + 1"
      using True by (subst expo_hi.simps) simp
    show ?thesis
      unfolding e using ih by (simp add: power_int_add)
  next
    case False
    then have e: "expo_hi x = 0" by (subst expo_hi.simps) simp
    show ?thesis unfolding e using False "1.prems" by simp
  qed
qed

lemma expo_lo_bounds:
  "0 \<le> x \<Longrightarrow> x < 2 \<Longrightarrow>
   - int n \<le> expo_lo n x \<and> x < 2 powi (expo_lo n x + 1)
   \<and> (2 powi expo_lo n x \<le> x \<or> expo_lo n x = - int n)"
proof (induction n arbitrary: x)
  case 0
  then show ?case by simp
next
  case (Suc n)
  show ?case
  proof (cases "x < 1")
    case True
    then have "0 \<le> 2 * x" "2 * x < 2" using Suc.prems by simp_all
    from Suc.IH [OF this]
    have ih: "- int n \<le> expo_lo n (2 * x)" "2 * x < 2 powi (expo_lo n (2 * x) + 1)"
      "2 powi expo_lo n (2 * x) \<le> 2 * x \<or> expo_lo n (2 * x) = - int n" by simp_all
    have split: "(2::real) powi expo_lo n (2 * x) = 2 powi (expo_lo n (2 * x) - 1) * 2"
      by (simp add: power_int_minus_mult)
    have split2: "(2::real) powi (expo_lo n (2 * x) + 1) = 2 powi expo_lo n (2 * x) * 2"
      by (simp add: power_int_add)
    show ?thesis
      using True ih unfolding split2 by (auto simp: split)
  next
    case False
    then show ?thesis using Suc.prems by simp
  qed
qed

lemma expo_bounds:
  "- 1022 \<le> expo x \<and> \<bar>x\<bar> < 2 powi (expo x + 1)
   \<and> (2 powi expo x \<le> \<bar>x\<bar> \<or> expo x = - 1022)"
proof (cases "1 \<le> \<bar>x\<bar>")
  case True
  with expo_hi_bounds [OF True] show ?thesis by (simp add: expo_def)
next
  case False
  then have "0 \<le> \<bar>x\<bar>" "\<bar>x\<bar> < 2" by simp_all
  from expo_lo_bounds [OF this, of 1022] False show ?thesis by (simp add: expo_def)
qed

lemma expo_eqI:
  assumes "2 powi k \<le> \<bar>x\<bar>" and "\<bar>x\<bar> < 2 powi (k + 1)" and "- 1022 \<le> k"
  shows "expo x = k"
proof (rule ccontr)
  assume ne: "expo x \<noteq> k"
  note b = expo_bounds [of x]
  show False
  proof (cases "expo x < k")
    case True
    then have "(2::real) powi (expo x + 1) \<le> 2 powi k"
      by (intro power_int_increasing) simp_all
    with b assms(1) show False by linarith
  next
    case False
    with ne have gt: "k < expo x" by simp
    then have "(2::real) powi (k + 1) \<le> 2 powi expo x"
      by (intro power_int_increasing) simp_all
    moreover have "2 powi expo x \<le> \<bar>x\<bar>" using b gt assms(3) by auto
    ultimately show False using assms(2) by linarith
  qed
qed

lemma expo_mono:
  assumes "\<bar>x\<bar> \<le> \<bar>y\<bar>"
  shows "expo x \<le> expo y"
proof (rule ccontr)
  assume "\<not> expo x \<le> expo y"
  then have gt: "expo y < expo x" by simp
  note bx = expo_bounds [of x] and by' = expo_bounds [of y]
  have "2 powi expo x \<le> \<bar>x\<bar>" using bx by' gt by auto
  moreover have "(2::real) powi (expo y + 1) \<le> 2 powi expo x"
    using gt by (intro power_int_increasing) simp_all
  ultimately show False using by' assms by linarith
qed

lemma fl_zero [simp]: "fl 0 = 0"
  using rne_of_int [of 0] by (simp add: fl_def)

lemma fl_eval:
  assumes "2 powi k \<le> \<bar>x\<bar>" and "\<bar>x\<bar> < 2 powi (k + 1)" and "- 1022 \<le> k"
  shows "fl x = of_int (rne (x / 2 powi (k - 52))) * 2 powi (k - 52)"
  using expo_eqI [OF assms] by (simp add: fl_def)

lemma fl_mono:
  assumes "0 \<le> x" and "x \<le> y"
  shows "fl x \<le> fl y"
proof -
  have le: "expo x \<le> expo y" using assms by (intro expo_mono) simp
  define ux :: real where "ux = 2 powi (expo x - 52)"
  define uy :: real where "uy = 2 powi (expo y - 52)"
  have pos: "0 < ux" "0 < uy" by (simp_all add: ux_def uy_def)
  show ?thesis
  proof (cases "expo x = expo y")
    case True
    then have "ux = uy" by (simp add: ux_def uy_def)
    moreover have "rne (x / uy) \<le> rne (y / uy)"
      using assms pos by (intro rne_mono divide_right_mono) simp_all
    ultimately show ?thesis
      using pos by (simp add: fl_def ux_def [symmetric] uy_def [symmetric] mult_right_mono)
  next
    case False
    with le have lt: "expo x < expo y" by simp
    note bx = expo_bounds [of x] and by' = expo_bounds [of y]
    have top: "(2::real) powi (expo x + 1) = 2 ^ 53 * ux"
      unfolding ux_def using power_int_add [of "2::real" 53 "expo x - 52"]
      by (simp add: add.commute)
    have "x / ux \<le> 2 ^ 53"
      using bx assms(1) pos unfolding top by (simp add: pos_divide_le_eq)
    then have "rne (x / ux) \<le> rne (of_int (2 ^ 53))"
      by (intro rne_mono) simp
    then have "rne (x / ux) \<le> 2 ^ 53" by (simp only: rne_of_int)
    then have "(of_int (rne (x / ux)) :: real) \<le> 2 ^ 53"
      by (metis of_int_le_iff of_int_numeral of_int_power)
    then have a: "fl x \<le> 2 powi (expo x + 1)"
      unfolding top using pos by (simp add: fl_def ux_def [symmetric] mult_right_mono)
    have bot: "(2::real) powi expo y = 2 ^ 52 * uy"
      unfolding uy_def using power_int_add [of "2::real" 52 "expo y - 52"]
      by (simp add: add.commute)
    have "2 powi expo y \<le> \<bar>y\<bar>" using by' bx lt by auto
    then have "2 ^ 52 \<le> y / uy"
      using assms pos unfolding bot by (simp add: pos_le_divide_eq)
    then have "rne (of_int (2 ^ 52)) \<le> rne (y / uy)"
      by (intro rne_mono) simp
    then have "2 ^ 52 \<le> rne (y / uy)" by (simp only: rne_of_int)
    then have "(2 ^ 52 :: real) \<le> of_int (rne (y / uy))"
      by (metis of_int_le_iff of_int_numeral of_int_power)
    then have b: "2 powi expo y \<le> fl y"
      unfolding bot using pos by (simp add: fl_def uy_def [symmetric] mult_right_mono)
    have "(2::real) powi (expo x + 1) \<le> 2 powi expo y"
      using lt by (intro power_int_increasing) simp_all
    with a b show ?thesis by linarith
  qed
qed

lemma fl_nonneg: "0 \<le> x \<Longrightarrow> 0 \<le> fl x"
  using fl_mono [of 0 x] by simp

lemma fl_of_int:
  assumes "\<bar>n\<bar> < 2 ^ 53"
  shows "fl (of_int n) = of_int n"
proof (cases "n = 0")
  case True
  then show ?thesis by simp
next
  case False
  then have "1 \<le> \<bar>n\<bar>" by simp
  then have one: "1 \<le> \<bar>of_int n :: real\<bar>"
    by (metis of_int_1_le_iff of_int_abs)
  define e where "e = expo (of_int n)"
  have e0: "0 \<le> e"
    using expo_hi_bounds [OF one] one by (simp add: e_def expo_def)
  note b = expo_bounds [of "of_int n"]
  have "(2::real) powi e \<le> \<bar>of_int n\<bar>"
    using b e0 by (auto simp: e_def)
  also have "\<bar>of_int n :: real\<bar> < 2 ^ 53"
    using assms by (metis of_int_abs of_int_less_iff of_int_numeral of_int_power)
  finally have "(2::real) powi e < 2 powi 53" by simp
  then have "e < 53"
    by (rule power_int_le_imp_less_exp [rotated]) simp_all
  then have e52: "e \<le> 52" by simp
  define k where "k = nat (52 - e)"
  have "e - 52 = - int k" using e52 by (simp add: k_def)
  then have u: "(2::real) powi (e - 52) = 1 / 2 ^ k"
    by (simp add: power_int_minus divide_inverse)
  have "of_int n / (2::real) powi (e - 52) = of_int (n * 2 ^ k)"
    by (simp add: u)
  then have "rne (of_int n / 2 powi (e - 52)) = n * 2 ^ k"
    by (simp only: rne_of_int)
  then show ?thesis
    unfolding fl_def e_def [symmetric] by (simp add: u)
qed

lemma fl_numeral [simp]: "(numeral w :: int) < 2 ^ 53 \<Longrightarrow> fl (numeral w) = numeral w"
  using fl_of_int [of "numeral w"] by simp

lemma fl_one [simp]: "fl 1 = 1"
  using fl_of_int [of 1] by simp

lemma fl_idem:
  assumes "0 \<le> x"
  shows "fl (fl x) = fl x"
proof -
  define e where "e = expo x"
  define u :: real where "u = 2 powi (e - 52)"
  define N where "N = rne (x / u)"
  have upos: "0 < u" by (simp add: u_def)
  have y: "fl x = of_int N * u" by (simp add: fl_def N_def u_def e_def)
  note b = expo_bounds [of x]
  have top: "(2::real) powi (e + 1) = 2 ^ 53 * u"
    unfolding u_def using power_int_add [of "2::real" 53 "e - 52"] by (simp add: add.commute)
  have bot: "(2::real) powi e = 2 ^ 52 * u"
    unfolding u_def using power_int_add [of "2::real" 52 "e - 52"] by (simp add: add.commute)
  have "rne (of_int 0) \<le> rne (x / u)"
    using assms upos by (intro rne_mono) simp
  then have N0: "0 \<le> N" by (simp only: rne_of_int N_def)
  have "x / u \<le> 2 ^ 53"
    using b assms upos unfolding e_def [symmetric] top by (simp add: pos_divide_le_eq)
  then have "rne (x / u) \<le> rne (of_int (2 ^ 53))" by (intro rne_mono) simp
  then have N53: "N \<le> 2 ^ 53" by (simp only: rne_of_int N_def)
  have same: "fl (of_int N * u) = of_int N * u" if "expo (of_int N * u) = e"
    using that upos by (simp add: fl_def u_def [symmetric])
  consider "N = 0" | "N = 2 ^ 53" | "2 ^ 52 \<le> N" "N < 2 ^ 53" | "0 < N" "N < 2 ^ 52"
    using N0 N53 by linarith
  then show ?thesis
  proof cases
    case 1
    then show ?thesis by (simp add: y)
  next
    case 2
    then have yv: "fl x = 2 powi (e + 1)" by (simp add: y top)
    have "(2::real) powi (e + 1) < 2 powi (e + 1 + 1)"
      by (intro power_int_strict_increasing) simp_all
    then have ex: "expo (2 powi (e + 1) :: real) = e + 1"
      using b by (intro expo_eqI) (simp_all add: e_def)
    have "(2::real) powi (e + 1) / 2 powi (e + 1 - 52) = of_int (2 ^ 52)"
      using power_int_add [of "2::real" 52 "e + 1 - 52"] by (simp add: add.commute)
    then have "rne ((2::real) powi (e + 1) / 2 powi (e + 1 - 52)) = 2 ^ 52"
      by (simp only: rne_of_int)
    then have "fl (2 powi (e + 1)) = 2 ^ 52 * 2 powi (e + 1 - 52)"
      by (simp add: fl_def ex)
    also have "\<dots> = 2 powi (e + 1)"
      using power_int_add [of "2::real" 52 "e + 1 - 52"] by (simp add: add.commute)
    finally show ?thesis by (simp add: yv)
  next
    case 3
    have lo: "(2 ^ 52 :: real) \<le> of_int N" 
      using 3(1) by (metis of_int_le_iff of_int_numeral of_int_power)
    have hi: "(of_int N :: real) < 2 ^ 53"
      using 3(2) by (metis of_int_less_iff of_int_numeral of_int_power)
    have "2 powi e \<le> \<bar>of_int N * u\<bar>"
      unfolding bot using lo upos N0 by (simp add: abs_mult)
    moreover have "\<bar>of_int N * u\<bar> < 2 powi (e + 1)"
      unfolding top using hi upos N0 by (simp add: abs_mult)
    moreover have "- 1022 \<le> e" using b by (simp add: e_def)
    ultimately have "expo (of_int N * u) = e" by (rule expo_eqI)
    then show ?thesis by (simp add: y same)
  next
    case 4
    have hi: "(of_int N :: real) < 2 ^ 52"
      using 4(2) by (metis of_int_less_iff of_int_numeral of_int_power)
    have esub: "e = - 1022"
    proof (rule ccontr)
      assume "e \<noteq> - 1022"
      then have "2 powi e \<le> \<bar>x\<bar>" using b by (simp add: e_def)
      then have "2 ^ 52 \<le> x / u"
        using assms upos unfolding bot by (simp add: pos_le_divide_eq)
      then have "rne (of_int (2 ^ 52)) \<le> rne (x / u)" by (intro rne_mono) simp
      then have "2 ^ 52 \<le> N" by (simp only: rne_of_int N_def)
      with 4(2) show False by simp
    qed
    have small: "\<bar>of_int N * u\<bar> < 2 powi e"
      unfolding bot using hi upos N0 by (simp add: abs_mult)
    note by' = expo_bounds [of "of_int N * u"]
    have "expo (of_int N * u) = e"
    proof (rule ccontr)
      assume ne: "expo (of_int N * u) \<noteq> e"
      then have "2 powi expo (of_int N * u) \<le> \<bar>of_int N * u\<bar>"
        using by' esub by auto
      with small have "(2::real) powi expo (of_int N * u) < 2 powi e" by linarith
      then have "expo (of_int N * u) < e"
        by (metis not_less one_le_numeral power_int_increasing)
      with by' esub show False by simp
    qed
    then show ?thesis by (simp add: y same)
  qed
qed

section \<open>Scoring\<close>

text \<open>The binary64 numbers that the multiplier literals denote.\<close>

lemma fl_multipliers:
  "fl (11 / 10) = 2476979795053773 / 2251799813685248" "fl (5 / 4) = 5 / 4" "fl (3 / 2) = 3 / 2"
  using fl_eval [of 0 "11 / 10"] fl_eval [of 0 "5 / 4"] fl_eval [of 0 "3 / 2"]
  by (simp_all add: rne_def Let_def)

lemma fl_neg_of_int: "\<bar>n\<bar> < 2 ^ 53 \<Longrightarrow> fl (- of_int n) = - of_int n"
  using fl_of_int [of "- n"] by simp

text \<open>The two branches of \<open>addJudgment\<close> as single record updates.\<close>

lemma addJudgment_hit:
  "isHitJudgment (jr_judgment r) \<Longrightarrow>
   addJudgment r s =
     s\<lparr>sc_stats := updateStats (jr_judgment r) (sc_stats s),
       sc_combo := sc_combo s + 1,
       sc_maxCombo := max (sc_maxCombo s) (sc_combo s + 1),
       sc_score :=
         fl (sc_score s
             + of_int \<lfloor>fl (score r * fl (getComboMultiplier (s\<lparr>sc_combo := sc_combo s + 1\<rparr>)))\<rfloor>)\<rparr>"
  by (simp add: addJudgment_def Let_def getComboMultiplier_def max_def)

lemma addJudgment_no_hit:
  "\<not> isHitJudgment (jr_judgment r) \<Longrightarrow>
   addJudgment r s =
     s\<lparr>sc_stats := updateStats (jr_judgment r) (sc_stats s),
       sc_combo := 0,
       sc_score := fl (sc_score s + score r)\<rparr>"
  by (simp add: addJudgment_def Let_def)

lemma updateStats_cases:
  "updateStats j st =
     (case j of
        PERFECT \<Rightarrow> st\<lparr>n_perfect := n_perfect st + 1\<rparr>
      | GREAT \<Rightarrow> st\<lparr>n_great := n_great st + 1\<rparr>
      | GOOD \<Rightarrow> st\<lparr>n_good := n_good st + 1\<rparr>
      | BAD \<Rightarrow> st\<lparr>n_bad := n_bad st + 1\<rparr>
      | MISS \<Rightarrow> st\<lparr>n_miss := n_miss st + 1\<rparr>)"
  by (cases j) simp_all

lemma perfect_1000_points:
  "\<lfloor>fl (1000 * fl (getComboMultiplier s))\<rfloor> =
     (if sc_combo s \<ge> 100 then 2000
      else if sc_combo s \<ge> 50 then 1500
      else if sc_combo s \<ge> 25 then 1250
      else if sc_combo s \<ge> 10 then 1100 else 1000)"
proof -
  have "fl (1000 * (2476979795053773 / 2251799813685248)) = 1100"
    using fl_eval [of 10 "1000 * (2476979795053773 / 2251799813685248)"]
    by (simp add: rne_def Let_def)
  then show ?thesis
    by (simp add: getComboMultiplier_def fl_multipliers)
qed

lemma addJudgment_perfect_1000:
  "addJudgment \<lparr> jr_judgment = PERFECT, timeDiff = d, score = 1000 \<rparr> s =
     s\<lparr>sc_stats := (sc_stats s)\<lparr>n_perfect := n_perfect (sc_stats s) + 1\<rparr>,
       sc_combo := sc_combo s + 1,
       sc_maxCombo := max (sc_maxCombo s) (sc_combo s + 1),
       sc_score := fl (sc_score s + (if sc_combo s + 1 \<ge> 100 then 2000
                                     else if sc_combo s + 1 \<ge> 50 then 1500
                                     else if sc_combo s + 1 \<ge> 25 then 1250
                                     else if sc_combo s + 1 \<ge> 10 then 1100 else 1000))\<rparr>"
  by (simp add: addJudgment_hit isHitJudgment_def perfect_1000_points)

lemma ten_perfects:
  "((addJudgment \<lparr> jr_judgment = PERFECT, timeDiff = d, score = 1000 \<rparr>) ^^ 10) ScoreSystem_new =
     \<lparr> sc_score = 10100, sc_combo = 10, sc_maxCombo = 10,
       sc_stats = \<lparr> n_perfect = 10, n_great = 0, n_good = 0, n_bad = 0, n_miss = 0 \<rparr> \<rparr>"
  by (simp add: eval_nat_numeral addJudgment_perfect_1000 ScoreSystem_new_def)

text \<open>
  Claim C6. \<open>addJudgment\<close> records the grade in the hit-count table in every case: the count
  of the result's grade goes up by one and the other four counts stay. For PERFECT, GREAT and
  GOOD it increments the combo, raises \<open>maxCombo\<close> when the new combo exceeds it, and adds
  \<open>floor(points * multiplier)\<close> to the score, where the multiplier is that of the incremented
  combo and product and sum are the code's binary64 operations. For the other grades it resets
  the combo to zero and adds the raw points. Ten PERFECT judgments of 1000 points on a fresh
  score system give score 10100, combo 10, \<open>maxCombo\<close> 10 and ten recorded PERFECTs.
\<close>

theorem addJudgment_effect:
  "sc_stats (addJudgment r s) =
     (case jr_judgment r of
        PERFECT \<Rightarrow> (sc_stats s)\<lparr>n_perfect := n_perfect (sc_stats s) + 1\<rparr>
      | GREAT \<Rightarrow> (sc_stats s)\<lparr>n_great := n_great (sc_stats s) + 1\<rparr>
      | GOOD \<Rightarrow> (sc_stats s)\<lparr>n_good := n_good (sc_stats s) + 1\<rparr>
      | BAD \<Rightarrow> (sc_stats s)\<lparr>n_bad := n_bad (sc_stats s) + 1\<rparr>
      | MISS \<Rightarrow> (sc_stats s)\<lparr>n_miss := n_miss (sc_stats s) + 1\<rparr>) \<and>
   (jr_judgment r \<in> {PERFECT, GREAT, GOOD} \<longrightarrow>
      sc_combo (addJudgment r s) = sc_combo s + 1 \<and>
      sc_maxCombo (addJudgment r s) = max (sc_maxCombo s) (sc_combo s + 1) \<and>
      sc_score (addJudgment r s) =
        fl (sc_score s
            + of_int \<lfloor>fl (score r * fl (getComboMultiplier (s\<lparr>sc_combo := sc_combo s + 1\<rparr>)))\<rfloor>)) \<and>
   (jr_judgment r \<notin> {PERFECT, GREAT, GOOD} \<longrightarrow>
      sc_combo (addJudgment r s) = 0 \<and>
      sc_maxCombo (addJudgment r s) = sc_maxCombo s \<and>
      sc_score (addJudgment r s) = fl (sc_score s + score r)) \<and>
   ((addJudgment \<lparr> jr_judgment = PERFECT, timeDiff = d, score = 1000 \<rparr>) ^^ 10) ScoreSystem_new =
     \<lparr> sc_score = 10100, sc_combo = 10, sc_maxCombo = 10,
       sc_stats = \<lparr> n_perfect = 10, n_great = 0, n_good = 0, n_bad = 0, n_miss = 0 \<rparr> \<rparr>"
proof -
  have hit_iff: "isHitJudgment (jr_judgment r) \<longleftrightarrow> jr_judgment r \<in> {PERFECT, GREAT, GOOD}"
    by (simp add: isHitJudgment_def)
  show ?thesis
  proof (cases "isHitJudgment (jr_judgment r)")
    case True
    then show ?thesis
      using hit_iff by (simp add: addJudgment_hit ten_perfects updateStats_cases)
  next
    case False
    then show ?thesis
      using hit_iff by (simp add: addJudgment_no_hit ten_perfects updateStats_cases)
  qed
qed

text \<open>
  A GREAT and a BAD judgment arriving at combo 9 and score 9000, and a GOOD judgment worth
  \<open>-50\<close> points arriving at combo 9 and score 0: the binary64 product with 1.1 lies below
  \<open>-55\<close>, so \<open>-56\<close> is added.
\<close>

theorem addJudgment_effect_witness:
  "sc_score (addJudgment \<lparr> jr_judgment = GREAT, timeDiff = 30, score = 800 \<rparr>
              (ScoreSystem_new\<lparr>sc_combo := 9, sc_maxCombo := 9, sc_score := 9000\<rparr>)) = 9880 \<and>
   sc_combo (addJudgment \<lparr> jr_judgment = GREAT, timeDiff = 30, score = 800 \<rparr>
              (ScoreSystem_new\<lparr>sc_combo := 9, sc_maxCombo := 9, sc_score := 9000\<rparr>)) = 10 \<and>
   n_great (sc_stats (addJudgment \<lparr> jr_judgment = GREAT, timeDiff = 30, score = 800 \<rparr>
              (ScoreSystem_new\<lparr>sc_combo := 9, sc_maxCombo := 9, sc_score := 9000\<rparr>))) = 1 \<and>
   sc_score (addJudgment \<lparr> jr_judgment = BAD, timeDiff = 120, score = 200 \<rparr>
              (ScoreSystem_new\<lparr>sc_combo := 9, sc_maxCombo := 9, sc_score := 9000\<rparr>)) = 9200 \<and>
   sc_combo (addJudgment \<lparr> jr_judgment = BAD, timeDiff = 120, score = 200 \<rparr>
              (ScoreSystem_new\<lparr>sc_combo := 9, sc_maxCombo := 9, sc_score := 9000\<rparr>)) = 0 \<and>
   n_bad (sc_stats (addJudgment \<lparr> jr_judgment = BAD, timeDiff = 120, score = 200 \<rparr>
              (ScoreSystem_new\<lparr>sc_combo := 9, sc_maxCombo := 9, sc_score := 9000\<rparr>))) = 1 \<and>
   sc_score (addJudgment \<lparr> jr_judgment = GOOD, timeDiff = 60, score = - 50 \<rparr>
              (ScoreSystem_new\<lparr>sc_combo := 9\<rparr>)) = - 56"
proof -
  have great: "fl (800 * (2476979795053773 / 2251799813685248)) = 7740561859543041 / 8796093022208"
    using fl_eval [of 9 "800 * (2476979795053773 / 2251799813685248)"]
    by (simp add: rne_def Let_def)
  have neg: "fl (- (50 * (2476979795053773 / 2251799813685248)))
               = - (7740561859543041 / 140737488355328)"
    using fl_eval [of 5 "- (50 * (2476979795053773 / 2251799813685248))"]
    by (simp add: rne_def Let_def)
  have gfloor: "\<lfloor>fl (800 * (2476979795053773 / 2251799813685248))\<rfloor> = 880"
    unfolding great by simp
  have nfloor: "\<lfloor>fl (- (50 * (2476979795053773 / 2251799813685248)))\<rfloor> = - 56"
    unfolding neg by simp
  have m56: "fl (- 56) = - 56"
    using fl_neg_of_int [of 56] by simp
  from addJudgment_effect
          [of "\<lparr> jr_judgment = GREAT, timeDiff = 30, score = 800 \<rparr>"
              "ScoreSystem_new\<lparr>sc_combo := 9, sc_maxCombo := 9, sc_score := 9000\<rparr>" 0]
        addJudgment_effect
          [of "\<lparr> jr_judgment = BAD, timeDiff = 120, score = 200 \<rparr>"
              "ScoreSystem_new\<lparr>sc_combo := 9, sc_maxCombo := 9, sc_score := 9000\<rparr>" 0]
        addJudgment_effect
          [of "\<lparr> jr_judgment = GOOD, timeDiff = 60, score = - 50 \<rparr>"
              "ScoreSystem_new\<lparr>sc_combo := 9\<rparr>" 0]
        gfloor nfloor
  show ?thesis
    by (simp add: ScoreSystem_new_def getComboMultiplier_def fl_multipliers m56)
qed

text \<open>
  Claim C7. The combo multiplier does not decrease when the combo grows, and it is 1.0 at
  combo 9, 1.1 at 10, 1.25 at 25, 1.5 at 50 and 2.0 at 100.
\<close>

theorem comboMultiplier_monotone:
  "(sc_combo s1 \<le> sc_combo s2 \<longrightarrow> getComboMultiplier s1 \<le> getComboMultiplier s2) \<and>
   getComboMultiplier (s\<lparr>sc_combo := 9\<rparr>) = 1 \<and>
   getComboMultiplier (s\<lparr>sc_combo := 10\<rparr>) = 11 / 10 \<and>
   getComboMultiplier (s\<lparr>sc_combo := 25\<rparr>) = 5 / 4 \<and>
   getComboMultiplier (s\<lparr>sc_combo := 50\<rparr>) = 3 / 2 \<and>
   getComboMultiplier (s\<lparr>sc_combo := 100\<rparr>) = 2"
  by (simp add: getComboMultiplier_def)

text \<open>Combos 24 and 25, on the two sides of a step.\<close>

theorem comboMultiplier_monotone_witness:
  "sc_combo (ScoreSystem_new\<lparr>sc_combo := 24\<rparr>) \<le> sc_combo (ScoreSystem_new\<lparr>sc_combo := 25\<rparr>) \<and>
   getComboMultiplier (ScoreSystem_new\<lparr>sc_combo := 24\<rparr>)
     \<le> getComboMultiplier (ScoreSystem_new\<lparr>sc_combo := 25\<rparr>)"
  using comboMultiplier_monotone
          [of "ScoreSystem_new\<lparr>sc_combo := 24\<rparr>" "ScoreSystem_new\<lparr>sc_combo := 25\<rparr>" ScoreSystem_new]
  by simp

section \<open>The award for a completed hold\<close>

lemma completedHolds_loop_score:
  "snd (completedHolds_loop es ns hn sc) =
     ((addJudgment \<lparr> jr_judgment = PERFECT, timeDiff = 0, score = 1000 \<rparr>)
        ^^ length (filter (\<lambda>(l, i). holdCompleted (ns ! i)) es)) sc"
proof (induction es arbitrary: hn sc)
  case Nil
  then show ?case by simp
next
  case (Cons e es)
  obtain l i where e: "e = (l, i)" by (cases e)
  show ?case
    unfolding e by (simp add: Cons.IH funpow_swap1)
qed

lemma missedNotes_loop_score:
  "missedNotes_loop ms ns hn sc =
     (score_miss ^^ length (filter (\<lambda>i. \<not> (ntype (ns ! i) = Hold \<and> hmap_get (lane (ns ! i)) hn = Some i)) ms)) sc"
  by (induction ms arbitrary: sc) (simp_all add: funpow_swap1)

lemma update_score:
  assumes "g_state g = playing"
  shows "scoreSystem (fst (update ct g)) =
           missedNotes_loop (snd (checkMissedNotes (map (updatePosition ct) (g_notes g)) ct))
             (fst (checkMissedNotes (map (updatePosition ct) (g_notes g)) ct))
             (fst (completedHolds_loop (holdingNotes g) (map (updatePosition ct) (g_notes g))
                     (holdingNotes g) (scoreSystem g)))
             (snd (completedHolds_loop (holdingNotes g) (map (updatePosition ct) (g_notes g))
                     (holdingNotes g) (scoreSystem g)))"
  using assms
  by (simp add: update_def Let_def onSongEnd_def split: prod.splits)

text \<open>
  Claim C8, as the code has it. A hold that ends in success is awarded a fixed judgment of grade
  PERFECT with time difference 0, whose points do not depend on the time of the release, but
  the two success paths award different amounts: a release that succeeds in \<open>onKeyUp\<close> adds
  the judgment worth 500 points, and \<open>update\<close> adds the judgment worth 1000 points once for
  every tracked hold that has completed (followed only by the misses of the sweep).
\<close>

theorem hold_success_awards:
  "(g_state g = playing \<and> hmap_get l (holdingNotes g) = Some i \<and> snd (release ct (g_notes g ! i))
      \<longrightarrow> scoreSystem (onKeyUp l ct g)
            = addJudgment \<lparr> jr_judgment = PERFECT, timeDiff = 0, score = 500 \<rparr> (scoreSystem g)) \<and>
   (g_state g = playing
      \<longrightarrow> (\<exists>m. scoreSystem (fst (update ct g))
                 = (score_miss ^^ m)
                     (((addJudgment \<lparr> jr_judgment = PERFECT, timeDiff = 0, score = 1000 \<rparr>)
                         ^^ length (filter (\<lambda>(l, i). holdCompleted (map (updatePosition ct) (g_notes g) ! i))
                                      (holdingNotes g)))
                        (scoreSystem g))))"
proof (intro conjI impI)
  assume a: "g_state g = playing \<and> hmap_get l (holdingNotes g) = Some i \<and> snd (release ct (g_notes g ! i))"
  obtain n' success where r: "release ct (g_notes g ! i) = (n', success)"
    by (cases "release ct (g_notes g ! i)")
  with a show "scoreSystem (onKeyUp l ct g)
            = addJudgment \<lparr> jr_judgment = PERFECT, timeDiff = 0, score = 500 \<rparr> (scoreSystem g)"
    by (simp add: onKeyUp_def)
next
  assume p: "g_state g = playing"
  show "\<exists>m. scoreSystem (fst (update ct g))
                 = (score_miss ^^ m)
                     (((addJudgment \<lparr> jr_judgment = PERFECT, timeDiff = 0, score = 1000 \<rparr>)
                         ^^ length (filter (\<lambda>(l, i). holdCompleted (map (updatePosition ct) (g_notes g) ! i))
                                      (holdingNotes g)))
                        (scoreSystem g))"
    unfolding update_score [OF p] missedNotes_loop_score completedHolds_loop_score
    by blast
qed

lemma grabbedHoldGame_value:
  "grabbedHoldGame =
     \<lparr> g_notes = [hit holdAt1000], holdingNotes = [(0, 0)],
       scoreSystem = addJudgment \<lparr> jr_judgment = PERFECT, timeDiff = 0, score = 1000 \<rparr> ScoreSystem_new,
       g_state = playing \<rparr>"
  by (simp add: grabbedHoldGame_def holdGame_def onKeyDown_def findHittableNote_def
        holdAt1000_def Note_new_def isProcessed_def MISS_WINDOW_def judge_def JUDGMENT_WINDOWS_def
        hit_def Let_def)

text \<open>The grabbed hold released at 2850, and the grabbed hold held until the update at 3000.\<close>

theorem hold_success_awards_witness:
  "scoreSystem (onKeyUp 0 2850 grabbedHoldGame)
     = addJudgment \<lparr> jr_judgment = PERFECT, timeDiff = 0, score = 500 \<rparr> (scoreSystem grabbedHoldGame) \<and>
   (\<exists>m. scoreSystem (fst (update 3000 grabbedHoldGame))
          = (score_miss ^^ m)
              (addJudgment \<lparr> jr_judgment = PERFECT, timeDiff = 0, score = 1000 \<rparr>
                 (scoreSystem grabbedHoldGame)))"
proof -
  have rel: "snd (release 2850 (hit holdAt1000))"
    by (simp add: release_def hit_def holdAt1000_def Note_new_def)
  have compl: "holdCompleted (updatePosition 3000 (hit holdAt1000))"
    by (simp add: updatePosition_def hit_def holdAt1000_def Note_new_def Let_def)
  from hold_success_awards [of grabbedHoldGame 0 0 2850]
       hold_success_awards [of grabbedHoldGame 0 0 3000] rel compl
  show ?thesis
    by (simp add: grabbedHoldGame_value)
qed

text \<open>
  Claim C8 as stated gives both successes the same reward. The hold at 1000 lasting 2000,
  grabbed at 1000, earns 1000 points when it completes in the update at 3000 and 500 points
  when it is released with success at 2850.
\<close>

theorem hold_success_award_counterexample:
  "holdCompleted (g_notes (fst (update 3000 grabbedHoldGame)) ! 0) \<and>
   sc_score (scoreSystem (fst (update 3000 grabbedHoldGame)))
     = sc_score (scoreSystem grabbedHoldGame) + 1000 \<and>
   holdCompleted (g_notes (onKeyUp 0 2850 grabbedHoldGame) ! 0) \<and>
   sc_score (scoreSystem (onKeyUp 0 2850 grabbedHoldGame))
     = sc_score (scoreSystem grabbedHoldGame) + 500"
proof -
  have up: "updatePosition 3000 (hit holdAt1000) =
      (hit holdAt1000)\<lparr>note_y := 1520, note_endY := 520, holdCompleted := True, isActive := False\<rparr>"
    by (simp add: updatePosition_def hit_def holdAt1000_def Note_new_def Let_def
          JUDGMENT_LINE_Y_def NOTE_FALL_SPEED_def NOTE_SPAWN_OFFSET_def)
  have hc: "holdCompleted (updatePosition 3000 (hit holdAt1000))"
    unfolding up by simp
  have proc: "isProcessed (updatePosition 3000 (hit holdAt1000))"
    unfolding up by (simp add: isProcessed_def hit_def holdAt1000_def Note_new_def)
  have last: "lastNoteTime [updatePosition 3000 (hit holdAt1000)] = 3000"
    unfolding up by (simp add: lastNoteTime_def hit_def holdAt1000_def Note_new_def)
  have a: "fst (update 3000 grabbedHoldGame) =
     \<lparr> g_notes = [updatePosition 3000 (hit holdAt1000)], holdingNotes = [],
       scoreSystem = addJudgment \<lparr> jr_judgment = PERFECT, timeDiff = 0, score = 1000 \<rparr>
                       (scoreSystem grabbedHoldGame),
       g_state = playing \<rparr>"
    using hc proc last
    by (simp add: grabbedHoldGame_value update_def Let_def checkMissedNotes_def)
  have b: "onKeyUp 0 2850 grabbedHoldGame =
     \<lparr> g_notes = [fst (release 2850 (hit holdAt1000))], holdingNotes = [],
       scoreSystem = addJudgment \<lparr> jr_judgment = PERFECT, timeDiff = 0, score = 500 \<rparr>
                       (scoreSystem grabbedHoldGame),
       g_state = playing \<rparr>"
    by (simp add: grabbedHoldGame_value onKeyUp_def release_def hit_def holdAt1000_def Note_new_def)
  have rel: "holdCompleted (fst (release 2850 (hit holdAt1000)))"
    by (simp add: release_def hit_def holdAt1000_def Note_new_def)
  show ?thesis
    unfolding a b
    using hc rel
    by (simp add: grabbedHoldGame_value ScoreSystem_new_def addJudgment_def isHitJudgment_def
          getComboMultiplier_def Let_def)
qed

section \<open>One frame of the game loop\<close>

text \<open>The timestep and the clamp as binary64 numbers.\<close>

lemma timestep_value: "timestep = 4691249611844267 / 2 ^ 48"
  unfolding timestep_def FIXED_TIMESTEP_def
  using fl_eval [of 4 "1000 / 60"] by (simp add: rne_def Let_def)

lemma timestep_pos: "0 < timestep"
  by (simp add: timestep_value)

lemma maxAccumulator_value: "maxAccumulator = 5864062014805334 / 2 ^ 46"
  unfolding maxAccumulator_def timestep_value
  using fl_eval [of 6 "4691249611844267 / 2 ^ 48 * 5"] by (simp add: rne_def Let_def)

lemma fl_timestep: "fl timestep = timestep"
  unfolding timestep_value
  using fl_eval [of 4 "4691249611844267 / 2 ^ 48"] by (simp add: rne_def Let_def)

lemma fl_pred_timestep: "fl (4691249611844266 / 2 ^ 48) = 4691249611844266 / 2 ^ 48"
  using fl_eval [of 4 "4691249611844266 / 2 ^ 48"] by (simp add: rne_def Let_def)

text \<open>A binary64 number below the timestep is at most its predecessor.\<close>

lemma below_timestep:
  assumes "0 \<le> z" and "fl z < timestep"
  shows "fl z \<le> 4691249611844266 / 2 ^ 48"
proof (cases "z \<le> 4691249611844266 / 2 ^ 48")
  case True
  from fl_mono [OF assms(1) this] show ?thesis by (simp only: fl_pred_timestep)
next
  case False
  then have lo: "4691249611844266 / 2 ^ 48 < z" by simp
  have hi: "z < timestep"
  proof (rule ccontr)
    assume "\<not> z < timestep"
    then have "timestep \<le> z" by simp
    from fl_mono [OF _ this] timestep_pos have "fl timestep \<le> fl z" by simp
    with assms(2) show False by (simp add: fl_timestep)
  qed
  have ev: "fl z = of_int (rne (z / 2 powi (4 - 52))) * 2 powi (4 - 52)"
    using lo hi by (intro fl_eval) (simp_all add: timestep_value)
  define N where "N = rne (z / 2 powi (4 - 52))"
  have flz: "fl z = of_int N / 2 ^ 48"
    unfolding ev N_def by simp
  have "(of_int N :: real) < 4691249611844267"
    using assms(2) unfolding flz timestep_value by simp
  then have "N < 4691249611844267" by linarith
  then have "N \<le> 4691249611844266" by simp
  then have "(of_int N :: real) \<le> 4691249611844266" by linarith
  then show ?thesis unfolding flz by (simp add: divide_right_mono)
qed

text \<open>
  The largest accumulator a frame can start its updates with, and the five subtractions
  from it.
\<close>

lemma fl_top: "fl (4691249611844266 / 2 ^ 48 + maxAccumulator) = 100"
  unfolding maxAccumulator_value
  using fl_eval [of 6 "4691249611844266 / 2 ^ 48 + 5864062014805334 / 2 ^ 46"]
  by (simp add: rne_def Let_def)

lemma drain1: "fl (100 - timestep) = 5864062014805333 / 2 ^ 46"
  unfolding timestep_value
  using fl_eval [of 6 "100 - 4691249611844267 / 2 ^ 48"] by (simp add: rne_def Let_def)

lemma drain2: "fl (5864062014805333 / 2 ^ 46 - timestep) = 4691249611844266 / 2 ^ 46"
  unfolding timestep_value
  using fl_eval [of 6 "5864062014805333 / 2 ^ 46 - 4691249611844267 / 2 ^ 48"]
  by (simp add: rne_def Let_def)

lemma drain3: "fl (4691249611844266 / 2 ^ 46 - timestep) = 7036874417766398 / 2 ^ 47"
  unfolding timestep_value
  using fl_eval [of 5 "4691249611844266 / 2 ^ 46 - 4691249611844267 / 2 ^ 48"]
  by (simp add: rne_def Let_def)

lemma drain4: "fl (7036874417766398 / 2 ^ 47 - timestep) = 4691249611844264 / 2 ^ 47"
  unfolding timestep_value
  using fl_eval [of 5 "7036874417766398 / 2 ^ 47 - 4691249611844267 / 2 ^ 48"]
  by (simp add: rne_def Let_def)

lemma drain5: "fl (4691249611844264 / 2 ^ 47 - timestep) = 4691249611844261 / 2 ^ 48"
  unfolding timestep_value
  using fl_eval [of 4 "4691249611844264 / 2 ^ 47 - 4691249611844267 / 2 ^ 48"]
  by (simp add: rne_def Let_def)

lemma fl_ratio: "fl (4691249611844266 / 2 ^ 48 / timestep) = 9007199254740990 / 2 ^ 53"
  unfolding timestep_value
  using fl_eval [of "- 1" "4691249611844266 / 2 ^ 48 / (4691249611844267 / 2 ^ 48)"]
  by (simp add: rne_def Let_def)

lemma gl_stop_accumulator: "accumulator (gl_stop g) = accumulator g"
  by (simp add: gl_stop_def Let_def)

lemma gl_stop_lastTime: "lastTime (gl_stop g) = lastTime g"
  by (simp add: gl_stop_def Let_def)

text \<open>A call of \<open>loop\<close> on a stopped loop returns at its guard and calls nothing.\<close>

lemma gl_loop_stopped:
  "\<not> gl_isRunning g \<Longrightarrow> gl_loop onUpdate onRender now rafId g w = Some (g, w, [])"
  by (simp add: gl_loop_def)

text \<open>
  When the accumulator stays at or above the timestep through \<open>k\<close> subtractions and falls
  below it with the \<open>k\<close>-th, the update loop returns after \<open>k\<close> calls of \<open>onUpdate\<close>, each
  with the fixed timestep and each on the world the previous call left.
\<close>

lemma fixed_updates_run:
  assumes "\<forall>j<k. timestep \<le> (consume ^^ j) (accumulator g)"
    and "(consume ^^ k) (accumulator g) < timestep"
  shows "\<exists>g'. fixed_updates onUpdate g w calls =
                 Some (g', ((\<lambda>v. fst (onUpdate timestep v)) ^^ k) w,
                       calls @ replicate k (OnUpdate timestep))
              \<and> accumulator g' = (consume ^^ k) (accumulator g)
              \<and> lastTime g' = lastTime g"
  using assms
proof (induction k arbitrary: g w calls)
  case 0
  then have "accumulator g < timestep" by simp
  then show ?case by (subst fixed_updates.simps) simp
next
  case (Suc k)
  from Suc.prems(1) have ge: "timestep \<le> accumulator g" by fastforce
  obtain w1 stopped where cb: "onUpdate timestep w = (w1, stopped)"
    by (cases "onUpdate timestep w")
  define g2 where
    "g2 = (if stopped then gl_stop g else g)\<lparr>accumulator := fl (accumulator g - timestep)\<rparr>"
  have acc2: "accumulator g2 = consume (accumulator g)"
    and last2: "lastTime g2 = lastTime g"
    by (simp_all add: g2_def gl_stop_lastTime consume_def)
  have unfold: "fixed_updates onUpdate g w calls
                = fixed_updates onUpdate g2 w1 (calls @ [OnUpdate timestep])"
    using ge
    by (subst fixed_updates.simps) (simp add: cb g2_def Let_def gl_stop_accumulator)
  have p1: "\<forall>j<k. timestep \<le> (consume ^^ j) (accumulator g2)"
  proof (intro allI impI)
    fix j assume "j < k"
    then have "Suc j < Suc k" by simp
    with Suc.prems(1) have "timestep \<le> (consume ^^ Suc j) (accumulator g)"
      by blast
    then show "timestep \<le> (consume ^^ j) (accumulator g2)"
      by (simp add: acc2 funpow_swap1)
  qed
  have p2: "(consume ^^ k) (accumulator g2) < timestep"
    using Suc.prems(2) by (simp add: acc2 funpow_swap1)
  from Suc.IH [OF p1 p2, of w1 "calls @ [OnUpdate timestep]"]
  obtain g' where
    r: "fixed_updates onUpdate g2 w1 (calls @ [OnUpdate timestep]) =
          Some (g', ((\<lambda>v. fst (onUpdate timestep v)) ^^ k) w1,
                (calls @ [OnUpdate timestep]) @ replicate k (OnUpdate timestep))"
    and a: "accumulator g' = (consume ^^ k) (accumulator g2)"
    and l: "lastTime g' = lastTime g2"
    by blast
  have w1: "w1 = fst (onUpdate timestep w)" by (simp add: cb)
  have "fixed_updates onUpdate g w calls =
          Some (g', ((\<lambda>v. fst (onUpdate timestep v)) ^^ Suc k) w,
                calls @ replicate (Suc k) (OnUpdate timestep))"
    unfolding unfold r
    using funpow_swap1 [of "\<lambda>v. fst (onUpdate timestep v)" k w]
    by (simp add: w1 replicate_append_same)
  moreover have "accumulator g' = (consume ^^ Suc k) (accumulator g)"
    unfolding a by (simp add: acc2 funpow_swap1)
  moreover have "lastTime g' = lastTime g" by (simp add: l last2)
  ultimately show ?case by blast
qed

lemma consume_mono:
  assumes "timestep \<le> a" and "a \<le> b"
  shows "0 \<le> consume a \<and> consume a \<le> consume b"
proof -
  have "0 \<le> a - timestep" "a - timestep \<le> b - timestep" using assms by simp_all
  then show ?thesis by (simp add: consume_def fl_nonneg fl_mono)
qed

lemma drain_bound:
  assumes "0 \<le> a" and "a \<le> 100"
    and "\<forall>j<m. timestep \<le> (consume ^^ j) a"
  shows "0 \<le> (consume ^^ m) a
         \<and> (consume ^^ m) a \<le> (consume ^^ m) 100"
  using assms(3)
proof (induction m)
  case 0
  then show ?case using assms(1,2) by simp
next
  case (Suc m)
  then have ih: "(consume ^^ m) a \<le> (consume ^^ m) 100"
    and ge: "timestep \<le> (consume ^^ m) a"
    by simp_all
  from consume_mono [OF ge ih] show ?case by simp
qed

lemma drain_five: "(consume ^^ 5) 100 < timestep"
proof -
  have "(consume ^^ 5) 100 = consume (consume (consume (consume (consume 100))))"
    by (simp add: eval_nat_numeral)
  also have "\<dots> = 4691249611844261 / 2 ^ 48"
    unfolding consume_def drain1 drain2 drain3 drain4 drain5 ..
  finally show ?thesis by (simp add: timestep_value)
qed

text \<open>From an accumulator of at most 100 the update loop makes at most five updates.\<close>

lemma drain_count:
  assumes "0 \<le> a" and "a \<le> 100"
  shows "\<exists>k\<le>5. (\<forall>j<k. timestep \<le> (consume ^^ j) a)
                \<and> (consume ^^ k) a < timestep
                \<and> 0 \<le> (consume ^^ k) a"
proof -
  define P where "P k \<longleftrightarrow> (consume ^^ k) a < timestep" for k
  have "\<exists>k0\<le>5. P k0"
  proof (cases "\<forall>j<5. timestep \<le> (consume ^^ j) a")
    case True
    from drain_bound [OF assms this] drain_five have "P 5" by (simp add: P_def)
    then show ?thesis by blast
  next
    case False
    then obtain j where "j < 5" "P j" by (auto simp: P_def not_le)
    then show ?thesis by (intro exI [of _ j]) simp
  qed
  then obtain k0 where k0: "k0 \<le> 5" "P k0" by blast
  define k where "k = (LEAST k. P k)"
  have pk: "P k" unfolding k_def using k0(2) by (rule LeastI)
  have kle: "k \<le> k0" unfolding k_def using k0(2) by (rule Least_le)
  have before: "\<forall>j<k. timestep \<le> (consume ^^ j) a"
  proof (intro allI impI)
    fix j assume "j < k"
    then have "\<not> P j" unfolding k_def by (rule not_less_Least)
    then show "timestep \<le> (consume ^^ j) a" by (simp add: P_def)
  qed
  from drain_bound [OF assms before] pk kle k0(1) before show ?thesis
    by (intro exI [of _ k]) (simp add: P_def)
qed

text \<open>
  A frame of a running loop whose accumulator, after the elapsed time is added, falls below
  the timestep with the \<open>k\<close>-th subtraction.
\<close>

lemma gl_loop_frame:
  assumes "gl_isRunning g"
    and "a = fl (accumulator g + min (fl (now - lastTime g)) maxAccumulator)"
    and "\<forall>j<k. timestep \<le> (consume ^^ j) a"
    and "(consume ^^ k) a < timestep"
  shows "\<exists>g'. gl_loop onUpdate onRender now rafId g w =
                 Some (g',
                       fst (onRender (fl ((consume ^^ k) a / timestep))
                              (((\<lambda>v. fst (onUpdate timestep v)) ^^ k) w)),
                       replicate k (OnUpdate timestep)
                         @ [OnRender (fl ((consume ^^ k) a / timestep))])
              \<and> accumulator g' = (consume ^^ k) a
              \<and> lastTime g' = now \<and> animationFrameId g' = rafId"
proof -
  define g2 where "g2 = g\<lparr>lastTime := now, accumulator := a\<rparr>"
  have acc2: "accumulator g2 = a" and last2: "lastTime g2 = now"
    by (simp_all add: g2_def)
  from fixed_updates_run [of k g2 onUpdate w "[]"] assms(3,4)
  obtain g3 where
    fu: "fixed_updates onUpdate g2 w [] =
           Some (g3, ((\<lambda>v. fst (onUpdate timestep v)) ^^ k) w, replicate k (OnUpdate timestep))"
    and acc3: "accumulator g3 = (consume ^^ k) a"
    and last3: "lastTime g3 = now"
    unfolding acc2 last2 by auto
  define w3 where "w3 = ((\<lambda>v. fst (onUpdate timestep v)) ^^ k) w"
  obtain w4 stopped where cb: "onRender (fl ((consume ^^ k) a / timestep)) w3 = (w4, stopped)"
    by (cases "onRender (fl ((consume ^^ k) a / timestep)) w3")
  define g4 where "g4 = (if stopped then gl_stop g3 else g3)\<lparr>animationFrameId := rafId\<rparr>"
  have ftalt: "(if fl (now - lastTime g) > maxAccumulator then maxAccumulator
                else fl (now - lastTime g)) = min (fl (now - lastTime g)) maxAccumulator"
    by (simp add: min_def)
  have "gl_loop onUpdate onRender now rafId g w =
          Some (g4, w4, replicate k (OnUpdate timestep)
                          @ [OnRender (fl ((consume ^^ k) a / timestep))])"
    using assms(1) fu cb
    by (simp add: gl_loop_def Let_def ftalt assms(2) [symmetric] g2_def [symmetric]
          w3_def [symmetric] acc3 g4_def)
  moreover have "w4 = fst (onRender (fl ((consume ^^ k) a / timestep)) w3)"
    by (simp add: cb)
  moreover have "accumulator g4 = (consume ^^ k) a" "lastTime g4 = now" "animationFrameId g4 = rafId"
    by (simp_all add: g4_def gl_stop_accumulator gl_stop_lastTime acc3 last3)
  ultimately show ?thesis
    unfolding w3_def by blast
qed

text \<open>
  Claim C4. In a frame of a running loop, whatever wall time has elapsed since the previous
  frame and whatever binary64 leftover below one timestep the accumulator carried in, the
  frame returns after \<open>n\<close> calls of \<open>onUpdate\<close> for an \<open>n\<close> between 0 and 5, each with
  exactly the fixed timestep and each on the world the previous call left, followed by one
  call of \<open>onRender\<close>, on the world the last update left, with \<open>accumulator / timestep\<close>,
  which lies in \<open>[0,1)\<close>. \<open>n\<close> is the number of timesteps the loop takes from the
  accumulator until less than one timestep remains, and the leftover is again a binary64
  number in \<open>[0, timestep)\<close>. The timer does not run backwards, so \<open>lastTime \<le> now\<close>.
\<close>

theorem gameLoop_frame:
  assumes "gl_isRunning g" and "lastTime g \<le> now"
    and "0 \<le> accumulator g" and "accumulator g < timestep"
    and "fl (accumulator g) = accumulator g"
  shows "\<exists>n g'. n \<le> 5
           \<and> gl_loop onUpdate onRender now rafId g w =
               Some (g',
                     fst (onRender (fl (accumulator g' / timestep))
                            (((\<lambda>v. fst (onUpdate timestep v)) ^^ n) w)),
                     replicate n (OnUpdate timestep) @ [OnRender (fl (accumulator g' / timestep))])
           \<and> 0 \<le> fl (accumulator g' / timestep) \<and> fl (accumulator g' / timestep) < 1
           \<and> accumulator g' =
               (consume ^^ n) (fl (accumulator g + min (fl (now - lastTime g)) maxAccumulator))
           \<and> (\<forall>j<n. timestep
                 \<le> (consume ^^ j) (fl (accumulator g + min (fl (now - lastTime g)) maxAccumulator)))
           \<and> 0 \<le> accumulator g' \<and> accumulator g' < timestep
           \<and> fl (accumulator g') = accumulator g'
           \<and> lastTime g' = now \<and> animationFrameId g' = rafId"
proof -
  define ft where "ft = min (fl (now - lastTime g)) maxAccumulator"
  define a where "a = fl (accumulator g + ft)"
  have mpos: "0 \<le> maxAccumulator" by (simp add: maxAccumulator_value)
  have "0 \<le> fl (now - lastTime g)" using assms(2) by (simp add: fl_nonneg)
  then have ft0: "0 \<le> ft" and ftm: "ft \<le> maxAccumulator"
    using mpos by (simp_all add: ft_def)
  have "fl (accumulator g) \<le> 4691249611844266 / 2 ^ 48"
    using assms(3,4,5) by (intro below_timestep) simp_all
  then have accp: "accumulator g \<le> 4691249611844266 / 2 ^ 48"
    by (simp only: assms(5))
  have sum0: "0 \<le> accumulator g + ft" using assms(3) ft0 by simp
  have "accumulator g + ft \<le> 4691249611844266 / 2 ^ 48 + maxAccumulator"
    using accp ftm by simp
  from fl_mono [OF sum0 this] have a100: "a \<le> 100"
    by (simp only: fl_top a_def)
  have a0: "0 \<le> a" unfolding a_def using sum0 by (rule fl_nonneg)
  from drain_count [OF a0 a100]
  obtain n where n5: "n \<le> 5"
    and before: "\<forall>j<n. timestep \<le> (consume ^^ j) a"
    and after: "(consume ^^ n) a < timestep"
    and nonneg: "0 \<le> (consume ^^ n) a"
    by blast
  from gl_loop_frame [OF assms(1) _ before after, of now onUpdate onRender rafId w]
  obtain g' where
    run: "gl_loop onUpdate onRender now rafId g w =
            Some (g',
                  fst (onRender (fl ((consume ^^ n) a / timestep))
                         (((\<lambda>v. fst (onUpdate timestep v)) ^^ n) w)),
                  replicate n (OnUpdate timestep) @ [OnRender (fl ((consume ^^ n) a / timestep))])"
    and acc: "accumulator g' = (consume ^^ n) a"
    and rest: "lastTime g' = now" "animationFrameId g' = rafId"
    unfolding a_def ft_def by blast
  have "\<exists>z\<ge>0. (consume ^^ n) a = fl z"
  proof (cases n)
    case 0
    with sum0 show ?thesis by (auto simp: a_def)
  next
    case (Suc m)
    with before have "timestep \<le> (consume ^^ m) a" by simp
    then have "0 \<le> (consume ^^ m) a - timestep" by simp
    moreover have "(consume ^^ n) a = fl ((consume ^^ m) a - timestep)"
      by (simp add: Suc consume_def)
    ultimately show ?thesis by blast
  qed
  then obtain z where z0: "0 \<le> z" and z: "(consume ^^ n) a = fl z" by blast
  have idem: "fl ((consume ^^ n) a) = (consume ^^ n) a"
    unfolding z using z0 by (rule fl_idem)
  have pred: "(consume ^^ n) a \<le> 4691249611844266 / 2 ^ 48"
    using after unfolding z using z0 by (intro below_timestep)
  have r0: "0 \<le> (consume ^^ n) a / timestep"
    using nonneg timestep_pos by simp
  have "(consume ^^ n) a / timestep \<le> 4691249611844266 / 2 ^ 48 / timestep"
    using timestep_pos by (intro divide_right_mono [OF pred]) simp
  from fl_mono [OF r0 this] have "fl ((consume ^^ n) a / timestep) \<le> 9007199254740990 / 2 ^ 53"
    by (simp only: fl_ratio)
  then have r1: "fl ((consume ^^ n) a / timestep) < 1" by simp
  have r2: "0 \<le> fl ((consume ^^ n) a / timestep)" using r0 by (rule fl_nonneg)
  show ?thesis
    using n5 run r1 r2 before after nonneg idem rest
    by (intro exI [of _ n] exI [of _ g']) (simp add: acc a_def ft_def)
qed

text \<open>One iteration of the update loop, and its exit.\<close>

lemma fixed_updates_done:
  "accumulator g < timestep \<Longrightarrow> fixed_updates onUpdate g w calls = Some (g, w, calls)"
  by (subst fixed_updates.simps) simp

lemma fixed_updates_step:
  "timestep \<le> accumulator g \<Longrightarrow>
   fixed_updates onUpdate g w calls =
     fixed_updates onUpdate
       ((if snd (onUpdate timestep w) then gl_stop g else g)
          \<lparr>accumulator := fl (accumulator g - timestep)\<rparr>)
       (fst (onUpdate timestep w)) (calls @ [OnUpdate timestep])"
  by (subst fixed_updates.simps)
     (simp add: Let_def gl_stop_accumulator split: prod.splits)

lemma maxAccumulator_between: "50 < maxAccumulator" "maxAccumulator < 1000"
  by (simp_all add: maxAccumulator_value)

text \<open>The roundings of the frames computed below.\<close>

lemma zero_start: "fl (maxAccumulator) = 2932031007402667 / 35184372088832"
  using fl_eval [of 6 "2932031007402667 / 35184372088832"] by (simp add: timestep_value maxAccumulator_value rne_def Let_def)

lemma zero_ge1: "timestep \<le> 2932031007402667 / 35184372088832"
  by (simp add: timestep_value)

lemma zero_drain1: "fl (2932031007402667 / 35184372088832 - timestep) = 4691249611844267 / 70368744177664"
  using fl_eval [of 6 "18764998447377069 / 281474976710656"] by (simp add: timestep_value maxAccumulator_value rne_def Let_def)

lemma zero_ge2: "timestep \<le> 4691249611844267 / 70368744177664"
  by (simp add: timestep_value)

lemma zero_drain2: "fl (4691249611844267 / 70368744177664 - timestep) = 50"
  using fl_eval [of 5 "14073748835532801 / 281474976710656"] by (simp add: timestep_value maxAccumulator_value rne_def Let_def)

lemma zero_ge3: "timestep \<le> 50"
  by (simp add: timestep_value)

lemma zero_drain3: "fl (50 - timestep) = 2345624805922133 / 70368744177664"
  using fl_eval [of 5 "9382499223688533 / 281474976710656"] by (simp add: timestep_value maxAccumulator_value rne_def Let_def)

lemma zero_ge4: "timestep \<le> 2345624805922133 / 70368744177664"
  by (simp add: timestep_value)

lemma zero_drain4: "fl (2345624805922133 / 70368744177664 - timestep) = 4691249611844265 / 281474976710656"
  using fl_eval [of 4 "4691249611844265 / 281474976710656"] by (simp add: timestep_value maxAccumulator_value rne_def Let_def)

lemma zero_lt: "4691249611844265 / 281474976710656 < timestep"
  by (simp add: timestep_value)

lemma zero_ratio: "fl (4691249611844265 / 281474976710656 / timestep) = 2251799813685247 / 2251799813685248"
  using fl_eval [of "- 1" "4691249611844265 / 4691249611844267"] by (simp add: timestep_value maxAccumulator_value rne_def Let_def)

lemma mid_start: "fl (10 + maxAccumulator) = 3283874728290987 / 35184372088832"
  using fl_eval [of 6 "3283874728290987 / 35184372088832"] by (simp add: timestep_value maxAccumulator_value rne_def Let_def)

lemma mid_ge1: "timestep \<le> 3283874728290987 / 35184372088832"
  by (simp add: timestep_value)

lemma mid_drain1: "fl (3283874728290987 / 35184372088832 - timestep) = 5394937053620907 / 70368744177664"
  using fl_eval [of 6 "21579748214483629 / 281474976710656"] by (simp add: timestep_value maxAccumulator_value rne_def Let_def)

lemma mid_ge2: "timestep \<le> 5394937053620907 / 70368744177664"
  by (simp add: timestep_value)

lemma mid_drain2: "fl (5394937053620907 / 70368744177664 - timestep) = 60"
  using fl_eval [of 5 "16888498602639361 / 281474976710656"] by (simp add: timestep_value maxAccumulator_value rne_def Let_def)

lemma mid_ge3: "timestep \<le> 60"
  by (simp add: timestep_value)

lemma mid_drain3: "fl (60 - timestep) = 3049312247698773 / 70368744177664"
  using fl_eval [of 5 "12197248990795093 / 281474976710656"] by (simp add: timestep_value maxAccumulator_value rne_def Let_def)

lemma mid_ge4: "timestep \<le> 3049312247698773 / 70368744177664"
  by (simp add: timestep_value)

lemma mid_drain4: "fl (3049312247698773 / 70368744177664 - timestep) = 7505999378950825 / 281474976710656"
  using fl_eval [of 4 "7505999378950825 / 281474976710656"] by (simp add: timestep_value maxAccumulator_value rne_def Let_def)

lemma mid_ge5: "timestep \<le> 7505999378950825 / 281474976710656"
  by (simp add: timestep_value)

lemma mid_drain5: "fl (7505999378950825 / 281474976710656 - timestep) = 1407374883553279 / 140737488355328"
  using fl_eval [of 3 "1407374883553279 / 140737488355328"] by (simp add: timestep_value maxAccumulator_value rne_def Let_def)

lemma mid_lt: "1407374883553279 / 140737488355328 < timestep"
  by (simp add: timestep_value)

lemma mid_ratio: "fl (1407374883553279 / 140737488355328 / timestep) = 5404319552844591 / 9007199254740992"
  using fl_eval [of "- 1" "2814749767106558 / 4691249611844267"] by (simp add: timestep_value maxAccumulator_value rne_def Let_def)

lemma fifty_start: "fl (50) = 50"
  using fl_eval [of 5 "50"] by (simp add: timestep_value maxAccumulator_value rne_def Let_def)

lemma fifty_ge1: "timestep \<le> 50"
  by (simp add: timestep_value)

lemma fifty_drain1: "fl (50 - timestep) = 2345624805922133 / 70368744177664"
  using fl_eval [of 5 "9382499223688533 / 281474976710656"] by (simp add: timestep_value maxAccumulator_value rne_def Let_def)

lemma fifty_ge2: "timestep \<le> 2345624805922133 / 70368744177664"
  by (simp add: timestep_value)

lemma fifty_drain2: "fl (2345624805922133 / 70368744177664 - timestep) = 4691249611844265 / 281474976710656"
  using fl_eval [of 4 "4691249611844265 / 281474976710656"] by (simp add: timestep_value maxAccumulator_value rne_def Let_def)

lemma fifty_lt: "4691249611844265 / 281474976710656 < timestep"
  by (simp add: timestep_value)

lemma fifty_ratio: "fl (4691249611844265 / 281474976710656 / timestep) = 2251799813685247 / 2251799813685248"
  using fl_eval [of "- 1" "4691249611844265 / 4691249611844267"] by (simp add: timestep_value maxAccumulator_value rne_def Let_def)

lemma twenty_start: "fl (20) = 20"
  using fl_eval [of 4 "20"] by (simp add: timestep_value maxAccumulator_value rne_def Let_def)

lemma twenty_ge1: "timestep \<le> 20"
  by (simp add: timestep_value)

lemma twenty_drain1: "fl (20 - timestep) = 938249922368853 / 281474976710656"
  using fl_eval [of 1 "938249922368853 / 281474976710656"] by (simp add: timestep_value maxAccumulator_value rne_def Let_def)

lemma twenty_lt: "938249922368853 / 281474976710656 < timestep"
  by (simp add: timestep_value)

lemma twenty_ratio: "fl (938249922368853 / 281474976710656 / timestep) = 7205759403792791 / 36028797018963968"
  using fl_eval [of "- 3" "938249922368853 / 4691249611844267"] by (simp add: timestep_value maxAccumulator_value rne_def Let_def)

text \<open>
  Three frames computed step by step: a frame after a long stall on an empty accumulator
  makes four updates and one of 50 ms makes two, since the timestep is the binary64 number
  next above \<open>50/3\<close>; a frame after a long stall with 10 ms carried in makes five.
\<close>

lemma frame_after_stall:
  "gl_loop recordUpdate recordRender 1000 2 freshRunningLoop [] =
     Some (\<lparr> lastTime = 1000, accumulator = 4691249611844265 / 281474976710656,
             animationFrameId = 2, gl_isRunning = True \<rparr>,
           [OnUpdate timestep, OnUpdate timestep, OnUpdate timestep, OnUpdate timestep,
            OnRender (2251799813685247 / 2251799813685248)],
           [OnUpdate timestep, OnUpdate timestep, OnUpdate timestep, OnUpdate timestep,
            OnRender (2251799813685247 / 2251799813685248)])"
  using maxAccumulator_between zero_ge1 zero_ge2 zero_ge3 zero_ge4 zero_lt zero_ratio
  by (simp add: gl_loop_def freshRunningLoop_def Let_def recordUpdate_def recordRender_def
        fixed_updates_step fixed_updates_done zero_start zero_drain1 zero_drain2
        zero_drain3 zero_drain4)

lemma frame_of_50ms:
  "gl_loop recordUpdate recordRender 50 2 freshRunningLoop [] =
     Some (\<lparr> lastTime = 50, accumulator = 4691249611844265 / 281474976710656,
             animationFrameId = 2, gl_isRunning = True \<rparr>,
           [OnUpdate timestep, OnUpdate timestep, OnRender (2251799813685247 / 2251799813685248)],
           [OnUpdate timestep, OnUpdate timestep, OnRender (2251799813685247 / 2251799813685248)])"
  using maxAccumulator_between fifty_ge1 fifty_ge2 fifty_lt fifty_ratio
  by (simp add: gl_loop_def freshRunningLoop_def Let_def recordUpdate_def recordRender_def
        fixed_updates_step fixed_updates_done fifty_drain1 fifty_drain2)

lemma frame_after_stall_carrying:
  "gl_loop recordUpdate recordRender 1000 2 midFrameLoop [] =
     Some (\<lparr> lastTime = 1000, accumulator = 1407374883553279 / 140737488355328,
             animationFrameId = 2, gl_isRunning = True \<rparr>,
           [OnUpdate timestep, OnUpdate timestep, OnUpdate timestep, OnUpdate timestep,
            OnUpdate timestep, OnRender (5404319552844591 / 9007199254740992)],
           [OnUpdate timestep, OnUpdate timestep, OnUpdate timestep, OnUpdate timestep,
            OnUpdate timestep, OnRender (5404319552844591 / 9007199254740992)])"
  using maxAccumulator_between mid_ge1 mid_ge2 mid_ge3 mid_ge4 mid_ge5 mid_lt mid_ratio
  by (simp add: gl_loop_def midFrameLoop_def Let_def recordUpdate_def recordRender_def
        fixed_updates_step fixed_updates_done mid_start mid_drain1 mid_drain2
        mid_drain3 mid_drain4 mid_drain5)

text \<open>
  A frame 1000 ms after the previous one, more than ten timesteps, with 10 ms carried in and
  callbacks that record what they receive.
\<close>

theorem gameLoop_frame_witness:
  "\<exists>n g'. n \<le> 5
     \<and> gl_loop recordUpdate recordRender 1000 2 midFrameLoop [] =
         Some (g',
               [OnUpdate timestep, OnUpdate timestep, OnUpdate timestep, OnUpdate timestep,
                OnUpdate timestep, OnRender (5404319552844591 / 9007199254740992)],
               [OnUpdate timestep, OnUpdate timestep, OnUpdate timestep, OnUpdate timestep,
                OnUpdate timestep, OnRender (5404319552844591 / 9007199254740992)])
     \<and> [OnUpdate timestep, OnUpdate timestep, OnUpdate timestep, OnUpdate timestep,
         OnUpdate timestep, OnRender (5404319552844591 / 9007199254740992)]
       = replicate n (OnUpdate timestep) @ [OnRender (fl (accumulator g' / timestep))]
     \<and> 0 \<le> fl (accumulator g' / timestep) \<and> fl (accumulator g' / timestep) < 1
     \<and> accumulator g' < timestep"
proof -
  have h1: "gl_isRunning midFrameLoop" and h2: "lastTime midFrameLoop \<le> 1000"
    and h3: "0 \<le> accumulator midFrameLoop" and h4: "accumulator midFrameLoop < timestep"
    and h5: "fl (accumulator midFrameLoop) = accumulator midFrameLoop"
    by (simp_all add: midFrameLoop_def timestep_value)
  from gameLoop_frame [OF h1 h2 h3 h4 h5, of recordUpdate recordRender 2 "[]"]
  obtain n g' where n: "n \<le> 5"
    and run: "gl_loop recordUpdate recordRender 1000 2 midFrameLoop [] =
               Some (g',
                     fst (recordRender (fl (accumulator g' / timestep))
                            (((\<lambda>v. fst (recordUpdate timestep v)) ^^ n) [])),
                     replicate n (OnUpdate timestep) @ [OnRender (fl (accumulator g' / timestep))])"
    and frac: "0 \<le> fl (accumulator g' / timestep)" "fl (accumulator g' / timestep) < 1"
    and below: "accumulator g' < timestep"
    by blast
  have "Some (g',
               fst (recordRender (fl (accumulator g' / timestep))
                      (((\<lambda>v. fst (recordUpdate timestep v)) ^^ n) [])),
               replicate n (OnUpdate timestep) @ [OnRender (fl (accumulator g' / timestep))])
        = Some (\<lparr> lastTime = 1000, accumulator = 1407374883553279 / 140737488355328,
                  animationFrameId = 2, gl_isRunning = True \<rparr>,
                [OnUpdate timestep, OnUpdate timestep, OnUpdate timestep, OnUpdate timestep,
                 OnUpdate timestep, OnRender (5404319552844591 / 9007199254740992)],
                [OnUpdate timestep, OnUpdate timestep, OnUpdate timestep, OnUpdate timestep,
                 OnUpdate timestep, OnRender (5404319552844591 / 9007199254740992)])"
    unfolding run [symmetric] by (rule frame_after_stall_carrying)
  then have inj: "g' = \<lparr> lastTime = 1000, accumulator = 1407374883553279 / 140737488355328,
                         animationFrameId = 2, gl_isRunning = True \<rparr>
      \<and> fst (recordRender (fl (accumulator g' / timestep))
                           (((\<lambda>v. fst (recordUpdate timestep v)) ^^ n) []))
      = [OnUpdate timestep, OnUpdate timestep, OnUpdate timestep, OnUpdate timestep,
         OnUpdate timestep, OnRender (5404319552844591 / 9007199254740992)]
      \<and> replicate n (OnUpdate timestep) @ [OnRender (fl (accumulator g' / timestep))]
      = [OnUpdate timestep, OnUpdate timestep, OnUpdate timestep, OnUpdate timestep,
         OnUpdate timestep, OnRender (5404319552844591 / 9007199254740992)]"
    unfolding option.inject prod.inject .
  have world: "fst (recordRender (fl (accumulator g' / timestep))
                           (((\<lambda>v. fst (recordUpdate timestep v)) ^^ n) []))
      = [OnUpdate timestep, OnUpdate timestep, OnUpdate timestep, OnUpdate timestep,
         OnUpdate timestep, OnRender (5404319552844591 / 9007199254740992)]"
    and calls: "replicate n (OnUpdate timestep) @ [OnRender (fl (accumulator g' / timestep))]
      = [OnUpdate timestep, OnUpdate timestep, OnUpdate timestep, OnUpdate timestep,
         OnUpdate timestep, OnRender (5404319552844591 / 9007199254740992)]"
    by (rule conjunct1 [OF conjunct2 [OF inj]], rule conjunct2 [OF conjunct2 [OF inj]])
  show ?thesis
  proof (intro exI [of _ n] exI [of _ g'] conjI)
    show "n \<le> 5" by fact
    show "gl_loop recordUpdate recordRender 1000 2 midFrameLoop [] =
         Some (g',
               [OnUpdate timestep, OnUpdate timestep, OnUpdate timestep, OnUpdate timestep,
                OnUpdate timestep, OnRender (5404319552844591 / 9007199254740992)],
               [OnUpdate timestep, OnUpdate timestep, OnUpdate timestep, OnUpdate timestep,
                OnUpdate timestep, OnRender (5404319552844591 / 9007199254740992)])"
      using run by (simp only: world calls)
    show "[OnUpdate timestep, OnUpdate timestep, OnUpdate timestep, OnUpdate timestep,
         OnUpdate timestep, OnRender (5404319552844591 / 9007199254740992)]
       = replicate n (OnUpdate timestep) @ [OnRender (fl (accumulator g' / timestep))]"
      by (rule calls [symmetric])
    show "0 \<le> fl (accumulator g' / timestep)" "fl (accumulator g' / timestep) < 1"
      "accumulator g' < timestep" by fact+
  qed
qed

section \<open>Invalid state transitions\<close>

text \<open>
  Claim C9, as the code has it. \<open>Clock.start\<close> on a running clock, \<open>Clock.pause\<close> on a
  clock that is not running and \<open>GameLoop.start\<close> on a running loop leave the whole state as it
  is (and \<open>GameLoop.start\<close> calls no callback). \<open>GameLoop.stop\<close> on a stopped loop leaves
  the whole state as it is when no frame handle is pending; when one is pending it clears the
  handle and changes nothing else. \<open>stop\<close> is idempotent. No operation raises.
\<close>

theorem invalid_transitions_absorbed:
  "(clk_isRunning c \<longrightarrow> clock_start now off c = c) \<and>
   (\<not> clk_isRunning c \<longrightarrow> clock_pause now c = c) \<and>
   (gl_isRunning g \<longrightarrow> gl_start onUpdate onRender now0 now1 rafId g w = Some (g, w, [])) \<and>
   (\<not> gl_isRunning g \<and> animationFrameId g = 0 \<longrightarrow> gl_stop g = g) \<and>
   (\<not> gl_isRunning g \<longrightarrow> gl_stop g = g\<lparr>animationFrameId := 0\<rparr>) \<and>
   gl_stop (gl_stop g) = gl_stop g"
  by (simp add: clock_start_def clock_pause_def gl_start_def gl_stop_def Let_def)

text \<open>The four operations on a running clock, a fresh clock, a running loop and a fresh loop.\<close>

theorem invalid_transitions_absorbed_witness:
  "clock_start 70 5 (clock_start 10 0 Clock_new) = clock_start 10 0 Clock_new \<and>
   clock_pause 70 Clock_new = Clock_new \<and>
   gl_start quietCallback quietCallback 70 71 9 midFrameLoop () = Some (midFrameLoop, (), []) \<and>
   gl_stop GameLoop_new = GameLoop_new \<and>
   gl_stop (gl_stop midFrameLoop) = gl_stop midFrameLoop"
  using invalid_transitions_absorbed
          [of "clock_start 10 0 Clock_new" 70 5 midFrameLoop quietCallback quietCallback 70 71 9 "()"]
        invalid_transitions_absorbed
          [of Clock_new 70 5 GameLoop_new quietCallback quietCallback 70 71 9 "()"]
  by (simp add: clock_start_def Clock_new_def midFrameLoop_def GameLoop_new_def)

text \<open>
  A loop stopped from inside its update callback finishes the frame and requests the next
  one, so it is left stopped with a frame handle.
\<close>

lemma stoppedInFrame_value:
  "stoppedInFrame =
     \<lparr> lastTime = 20, accumulator = 938249922368853 / 281474976710656, animationFrameId = 2,
       gl_isRunning = False \<rparr>"
proof -
  have first: "gl_start stopOnUpdate quietCallback 0 0 1 GameLoop_new ()
        = Some (\<lparr> lastTime = 0, accumulator = 0, animationFrameId = 1, gl_isRunning = True \<rparr>,
                (), [OnRender 0])"
    using maxAccumulator_between timestep_pos
    by (simp add: gl_start_def gl_loop_def GameLoop_new_def Let_def fixed_updates_done
          quietCallback_def)
  have second: "gl_loop stopOnUpdate quietCallback 20 2
                  \<lparr> lastTime = 0, accumulator = 0, animationFrameId = Suc 0, gl_isRunning = True \<rparr> ()
        = Some (\<lparr> lastTime = 20, accumulator = 938249922368853 / 281474976710656,
                  animationFrameId = 2, gl_isRunning = False \<rparr>,
                (), [OnUpdate timestep, OnRender (7205759403792791 / 36028797018963968)])"
    using maxAccumulator_between twenty_ge1 twenty_lt twenty_ratio
    by (simp add: gl_loop_def Let_def fixed_updates_step fixed_updates_done twenty_drain1
          stopOnUpdate_def quietCallback_def gl_stop_def)
  show ?thesis
    unfolding stoppedInFrame_def first by (simp add: second)
qed

text \<open>
  Claim C9 as stated lets \<open>GameLoop.stop\<close> on a stopped loop preserve the entire state. On
  the loop stopped inside its own frame a further \<open>stop()\<close> clears the pending frame handle.
\<close>

theorem stop_after_callback_stop_counterexample:
  "\<not> gl_isRunning stoppedInFrame \<and> gl_stop stoppedInFrame \<noteq> stoppedInFrame"
  by (simp add: stoppedInFrame_value gl_stop_def)

end
